theory Spec2Isabelle
  imports Main "HOL-Library.AList"
begin

section \<open>The program: modulesBuilder.js\<close>

text \<open>
  What follows is \<^verbatim>\<open>modulesBuilder.js\<close> function by function, with the names of the
  source. The properties come after the whole program.
\<close>

subsection \<open>Data model\<close>

text \<open>
  \<^verbatim>\<open>ProviderConfig\<close> and \<^verbatim>\<open>ModuleConfig\<close> are the two constructor functions of the
  source; the field \<^verbatim>\<open>size\<close> is written \<open>size'\<close> because \<open>size\<close> is a constant of HOL.
  The size of a file is \<^verbatim>\<open>Math.ceil(bytes / 1024.0)\<close>, a natural number.
\<close>

record ProviderConfig =
  name :: string
  injects :: "string list"

record ModuleConfig =
  dependencies :: "string list"
  files :: "string list"
  size' :: nat
  providers :: "ProviderConfig list"

text \<open>
  \<^verbatim>\<open>ModulesStructure\<close> is a plain JavaScript object, \<^verbatim>\<open>{}\<close>, used as a dictionary from
  module names to module configurations. Its own properties are modelled as an
  association list: the list of first components is \<^verbatim>\<open>Object.keys(modules)\<close> in its
  order, and an object has every key once.
\<close>

type_synonym ModulesStructure = "(string \<times> ModuleConfig) list"

definition Object_keys :: "ModulesStructure \<Rightarrow> string list" where
  "Object_keys modules = map fst modules"

text \<open>
  \<^verbatim>\<open>Object.keys\<close> lists the keys that are array indices first, in ascending order,
  and the other keys after them in the order in which they were added. An array index
  is the decimal writing, without leading zeros, of a number below \<open>2^32 - 1\<close>.
  \<open>put\<close> adds a property that the object does not have yet.
\<close>

definition array_index :: "string \<Rightarrow> nat option" where
  "array_index s =
     (let number = foldl (\<lambda>n c. 10 * n + (of_char c - 48)) (0::nat) s
      in if s \<noteq> [] \<and> list_all (\<lambda>c. c \<in> set ''0123456789'') s
            \<and> (s = ''0'' \<or> hd s \<noteq> CHR ''0'') \<and> number < 2 ^ 32 - 1
         then Some number else None)"

definition put :: "ModulesStructure \<Rightarrow> string \<Rightarrow> ModuleConfig \<Rightarrow> ModulesStructure" where
  "put modules key m =
     (case array_index key of
        None \<Rightarrow> modules @ [(key, m)]
      | Some i \<Rightarrow>
          (let lower = (\<lambda>(k, _). case array_index k of Some j \<Rightarrow> j < i | None \<Rightarrow> False)
           in takeWhile lower modules @ [(key, m)] @ dropWhile lower modules))"

text \<open>
  A plain object inherits the members of \<^verbatim>\<open>Object.prototype\<close>: eleven functions and
  the accessor \<^verbatim>\<open>__proto__\<close>, whose value is \<^verbatim>\<open>Object.prototype\<close> itself. The only
  thing the program ever writes to such a value is a property \<^verbatim>\<open>dependencies\<close>
  (in \<^verbatim>\<open>angular.module\<close>, below). \<open>Builtins\<close> is what has been written: the
  \<^verbatim>\<open>dependencies\<close> of the eleven functions, and the \<^verbatim>\<open>dependencies\<close> of
  \<^verbatim>\<open>Object.prototype\<close>, an array, together with what was written to the property
  \<^verbatim>\<open>dependencies\<close> of that array. \<open>pristine\<close> is the state in which the engine starts.
\<close>

record Builtins =
  memberDependencies :: "string \<rightharpoonup> string list"
  prototypeDependencies :: "(string list \<times> string list option) option"

definition pristine :: Builtins where
  "pristine = \<lparr>memberDependencies = Map.empty, prototypeDependencies = None\<rparr>"

definition Object_prototype_functions :: "string list" where
  "Object_prototype_functions =
     [''constructor'', ''__defineGetter__'', ''__defineSetter__'', ''hasOwnProperty'',
      ''__lookupGetter__'', ''__lookupSetter__'', ''isPrototypeOf'', ''propertyIsEnumerable'',
      ''toString'', ''valueOf'', ''toLocaleString'']"

text \<open>
  What \<^verbatim>\<open>modules[name]\<close> gives: \<^verbatim>\<open>undefined\<close>, a module configuration of the object's
  own, or an inherited value. An inherited value is truthy and is no module
  configuration: it has no \<^verbatim>\<open>files\<close> and no \<^verbatim>\<open>providers\<close>, and reading its
  \<^verbatim>\<open>dependencies\<close> gives what \<open>Inherited\<close> carries (\<open>None\<close> is \<^verbatim>\<open>undefined\<close>). A
  function without \<^verbatim>\<open>dependencies\<close> of its own inherits those of
  \<^verbatim>\<open>Object.prototype\<close>. Once \<^verbatim>\<open>Object.prototype\<close> has a property \<^verbatim>\<open>dependencies\<close>,
  every plain object inherits it, so that \<^verbatim>\<open>modules['dependencies']\<close> is that array.
  The array comes from the text of a file, which \<^verbatim>\<open>vm.runInContext\<close> runs in a context
  with built-in objects of its own, so it inherits nothing from the
  \<^verbatim>\<open>Object.prototype\<close> of the program: its \<^verbatim>\<open>dependencies\<close> are what was written to
  it.
\<close>

datatype property = Undefined | Own ModuleConfig | Inherited "string list option"

definition inherited :: "Builtins \<Rightarrow> string \<Rightarrow> property" where
  "inherited builtins key =
     (if key = ''__proto__'' then Inherited (map_option fst (prototypeDependencies builtins))
      else if key \<in> set Object_prototype_functions
      then Inherited (case memberDependencies builtins key of
                        Some deps \<Rightarrow> Some deps
                      | None \<Rightarrow> map_option fst (prototypeDependencies builtins))
      else if key = ''dependencies''
      then (case prototypeDependencies builtins of
              None \<Rightarrow> Undefined
            | Some (array, own) \<Rightarrow> Inherited own)
      else Undefined)"

definition get :: "Builtins \<Rightarrow> ModulesStructure \<Rightarrow> string \<Rightarrow> property" where
  "get builtins modules key =
     (case map_of modules key of
        Some m \<Rightarrow> Own m
      | None \<Rightarrow> inherited builtins key)"

text \<open>
  What the code can throw: the sentinel \<^verbatim>\<open>CRef\<close> of the cycle finder with its trail, the
  \<^verbatim>\<open>TypeError\<close> of reading a property of \<^verbatim>\<open>undefined\<close>, and \<^verbatim>\<open>Error(message)\<close>.
\<close>

datatype error = CRef "string list" | TypeError | Error string

subsection \<open>findCircularReference\<close>

text \<open>
  \<^verbatim>\<open>doFind(module, trail)\<close> either throws (\<open>Inl\<close>) or returns nothing (\<open>Inr ()\<close>).
  \<open>forEachDep\<close> is the \<^verbatim>\<open>deps.forEach\<close> of its body, over the dependencies that are
  still to be visited; \<^verbatim>\<open>module\<close> and \<^verbatim>\<open>trail\<close> are the variables the callback closes
  over. A throw inside the callback ends the \<^verbatim>\<open>forEach\<close>. The test
  \<^verbatim>\<open>trail.indexOf(module) >= 0\<close> says that the module is on the trail; the test
  \<^verbatim>\<open>deps.length > 0\<close> spares a \<^verbatim>\<open>forEach\<close> over nothing, and throws a
  \<^verbatim>\<open>TypeError\<close> when \<^verbatim>\<open>deps\<close> is \<^verbatim>\<open>undefined\<close>, as it is for an inherited value
  that was given no \<^verbatim>\<open>dependencies\<close>. The test \<^verbatim>\<open>if (modules[dep])\<close> holds for a
  module and for an inherited value.
\<close>

function doFind :: "Builtins \<Rightarrow> ModulesStructure \<Rightarrow> string \<Rightarrow> string list \<Rightarrow> error + unit"
  and forEachDep ::
    "Builtins \<Rightarrow> ModulesStructure \<Rightarrow> string \<Rightarrow> string list \<Rightarrow> string list \<Rightarrow> error + unit"
where
  "doFind builtins modules modul trail =
     (if modul \<in> set trail then Inl (CRef (trail @ [modul]))
      else (case get builtins modules modul of
              Undefined \<Rightarrow> Inl TypeError
            | Own m \<Rightarrow> forEachDep builtins modules modul trail (dependencies m)
            | Inherited None \<Rightarrow> Inl TypeError
            | Inherited (Some deps) \<Rightarrow> forEachDep builtins modules modul trail deps))"
| "forEachDep builtins modules modul trail [] = Inr ()"
| "forEachDep builtins modules modul trail (dep # deps) =
     (if get builtins modules dep \<noteq> Undefined
      then (case doFind builtins modules dep (trail @ [modul]) of
              Inl e \<Rightarrow> Inl e
            | Inr _ \<Rightarrow> forEachDep builtins modules modul trail deps)
      else forEachDep builtins modules modul trail deps)"
  by pat_completeness auto

text \<open>
  Every call of \<open>doFind\<close> that goes on adds to the trail a name that was not on it and
  is a key of the object or a name that can be inherited, so the names of that kind that
  are not on the trail get fewer.
\<close>

definition inherited_names :: "string list" where
  "inherited_names = ''__proto__'' # ''dependencies'' # Object_prototype_functions"

definition off_trail :: "ModulesStructure \<Rightarrow> string list \<Rightarrow> nat" where
  "off_trail modules trail =
     card (set (Object_keys modules) \<union> set inherited_names - set trail)"

lemma inherited_known:
  "inherited builtins key \<noteq> Undefined \<Longrightarrow> key \<in> set inherited_names"
  unfolding inherited_def inherited_names_def
  by (simp split: if_splits)

lemma defined_known:
  assumes "get builtins modules key \<noteq> Undefined"
  shows "key \<in> set (Object_keys modules) \<union> set inherited_names"
proof (cases "map_of modules key")
  case None
  with assms have "inherited builtins key \<noteq> Undefined" by (simp add: get_def)
  then show ?thesis by (simp add: inherited_known)
next
  case (Some m)
  then have "(key, m) \<in> set modules" by (rule map_of_SomeD)
  then have "key \<in> fst ` set modules" by (rule rev_image_eqI) simp
  then show ?thesis by (simp add: Object_keys_def)
qed

lemma off_trail_less:
  assumes "modul \<notin> set trail" and "get builtins modules modul \<noteq> Undefined"
  shows "off_trail modules (trail @ [modul]) < off_trail modules trail"
proof -
  let ?known = "set (Object_keys modules) \<union> set inherited_names"
  have "modul \<in> ?known" using assms(2) by (rule defined_known)
  then have "?known - set (trail @ [modul]) \<subset> ?known - set trail"
    using assms(1) by auto
  moreover have "finite (?known - set trail)" by simp
  ultimately show ?thesis
    unfolding off_trail_def by (rule psubset_card_mono[rotated])
qed

lemma off_trail_less_defined:
  "modul \<notin> set trail \<Longrightarrow> get builtins modules modul = Own m
     \<Longrightarrow> off_trail modules (trail @ [modul]) < off_trail modules trail"
  "modul \<notin> set trail \<Longrightarrow> get builtins modules modul = Inherited d
     \<Longrightarrow> off_trail modules (trail @ [modul]) < off_trail modules trail"
  by (rule off_trail_less[where builtins = builtins]; simp)+

termination doFind
proof (relation "inv_image (less_than <*lex*> less_than)
    (\<lambda>x. case x of
            Inl (builtins, modules, modul, trail) \<Rightarrow> (off_trail modules trail, 0)
          | Inr (builtins, modules, modul, trail, deps) \<Rightarrow>
              (off_trail modules (trail @ [modul]), Suc (length deps)))")
  show "wf (inv_image (less_than <*lex*> less_than)
    (\<lambda>x. case x of
            Inl (builtins, modules, modul, trail) \<Rightarrow> (off_trail modules trail, 0::nat)
          | Inr (builtins, modules, modul, trail, deps) \<Rightarrow>
              (off_trail modules (trail @ [modul]), Suc (length deps))))"
    by (intro wf_inv_image wf_lex_prod wf_less_than)
qed (auto simp: off_trail_less_defined)

declare doFind.simps [simp del]

text \<open>
  The loop of \<^verbatim>\<open>findCircularReference\<close> over the module names: a caught \<^verbatim>\<open>CRef\<close> is
  returned as its trail, any other exception is thrown again, and the end of the loop
  returns \<^verbatim>\<open>undefined\<close> (\<open>None\<close>).
\<close>

fun findLoop ::
  "Builtins \<Rightarrow> ModulesStructure \<Rightarrow> string list \<Rightarrow> error + string list option"
where
  "findLoop builtins modules [] = Inr None"
| "findLoop builtins modules (n # ns) =
     (case doFind builtins modules n [] of
        Inl (CRef trail) \<Rightarrow> Inr (Some trail)
      | Inl e \<Rightarrow> Inl e
      | Inr _ \<Rightarrow> findLoop builtins modules ns)"

definition findCircularReference ::
  "Builtins \<Rightarrow> ModulesStructure \<Rightarrow> error + string list option"
where
  "findCircularReference builtins modules = findLoop builtins modules (Object_keys modules)"

subsection \<open>resolveDependencies\<close>

text \<open>
  \<^verbatim>\<open>array.indexOf(element)\<close> is the first index of the element, or \<open>-1\<close>.
  \<^verbatim>\<open>dropDuplicates\<close> is the callback of the \<^verbatim>\<open>filter\<close>: it keeps the element at
  \<^verbatim>\<open>index\<close> when \<^verbatim>\<open>index === array.indexOf(element)\<close>; \<open>dropDuplicates\<close> here is
  the whole \<^verbatim>\<open>array.filter(dropDuplicates)\<close>.
\<close>

fun indexOf :: "'a list \<Rightarrow> 'a \<Rightarrow> int" where
  "indexOf [] x = -1"
| "indexOf (y # ys) x =
     (if y = x then 0 else (let i = indexOf ys x in if i < 0 then -1 else i + 1))"

definition dropDuplicates :: "'a list \<Rightarrow> 'a list" where
  "dropDuplicates array =
     map fst (filter (\<lambda>(element, index). int index = indexOf array element)
                     (zip array [0..<length array]))"

text \<open>
  \<^verbatim>\<open>Array.prototype.reduce\<close> with a callback that may throw or not return: \<open>None\<close> is
  a callback that runs forever, \<open>Some (Inl e)\<close> one that throws, and then so does the
  \<^verbatim>\<open>reduce\<close>.
\<close>

fun reduce ::
  "('b \<Rightarrow> 'a \<Rightarrow> (error + 'b) option) \<Rightarrow> 'a list \<Rightarrow> 'b \<Rightarrow> (error + 'b) option"
where
  "reduce callback [] prev = Some (Inr prev)"
| "reduce callback (x # xs) prev =
     Option.bind (callback prev x)
       (\<lambda>r. case r of Inl e \<Rightarrow> Some (Inl e) | Inr prev' \<Rightarrow> reduce callback xs prev')"

lemma reduce_mono [partial_function_mono]:
  assumes "\<And>prev x. mono_option (\<lambda>f. callback f prev x)"
  shows "mono_option (\<lambda>f. reduce (callback f) xs prev)"
proof (induction xs arbitrary: prev)
  case Nil
  show ?case by (simp add: option.const_mono)
next
  case (Cons x xs)
  have "mono_option (\<lambda>f. case r of Inl e \<Rightarrow> Some (Inl e)
                           | Inr prev' \<Rightarrow> reduce (callback f) xs prev')" for r
    by (cases r) (simp_all add: option.const_mono Cons)
  then show ?case
    unfolding reduce.simps by (intro bind_mono assms)
qed

text \<open>
  \<^verbatim>\<open>doResolve(deps)\<close> recurses along the dependencies with no check of its own; on a
  graph with a cycle it would not return, which is the value \<open>None\<close>. The test
  \<^verbatim>\<open>if (modules[dep])\<close> holds for a module and for an inherited value; for an inherited
  value without \<^verbatim>\<open>dependencies\<close> the inner \<^verbatim>\<open>doResolve(undefined)\<close> throws a
  \<^verbatim>\<open>TypeError\<close> at \<^verbatim>\<open>deps.reduce\<close>.
\<close>

partial_function (option) doResolve ::
  "Builtins \<Rightarrow> ModulesStructure \<Rightarrow> string list \<Rightarrow> (error + string list) option"
where
  "doResolve builtins modules deps =
     Option.bind
       (reduce (\<lambda>prev dep.
                  case get builtins modules dep of
                    Undefined \<Rightarrow> Some (Inr prev)
                  | Own m \<Rightarrow>
                      Option.bind (doResolve builtins modules (dependencies m))
                        (\<lambda>r. case r of
                                Inl e \<Rightarrow> Some (Inl e)
                              | Inr resolved \<Rightarrow> Some (Inr ((prev @ resolved) @ [dep])))
                  | Inherited None \<Rightarrow> Some (Inl TypeError)
                  | Inherited (Some inheritedDeps) \<Rightarrow>
                      Option.bind (doResolve builtins modules inheritedDeps)
                        (\<lambda>r. case r of
                                Inl e \<Rightarrow> Some (Inl e)
                              | Inr resolved \<Rightarrow> Some (Inr ((prev @ resolved) @ [dep]))))
               deps [])
       (\<lambda>r. case r of
               Inl e \<Rightarrow> Some (Inl e)
             | Inr array \<Rightarrow> Some (Inr (dropDuplicates array)))"

text \<open>
  \<^verbatim>\<open>resolveDependencies(moduleName, modules)\<close>: \<open>Some (Inl e)\<close> is a throw,
  \<open>Some (Inr names)\<close> the returned array, \<open>None\<close> no return at all. A trail, being an
  array, is truthy; \<^verbatim>\<open>undefined\<close> is not.
\<close>

definition resolveDependencies ::
  "Builtins \<Rightarrow> string \<Rightarrow> ModulesStructure \<Rightarrow> (error + string list) option"
where
  "resolveDependencies builtins moduleName modules =
     (case findCircularReference builtins modules of
        Inl e \<Rightarrow> Some (Inl e)
      | Inr (Some trail) \<Rightarrow>
          Some (Inl (Error ''Can not build dependency tree - found circular dependency''))
      | Inr None \<Rightarrow> doResolve builtins modules [moduleName])"

subsection \<open>The sandbox and buildModulesStructure\<close>

text \<open>\<^verbatim>\<open>new ModuleConfig()\<close>.\<close>

definition new_ModuleConfig :: ModuleConfig where
  "new_ModuleConfig = \<lparr>dependencies = [], files = [], size' = 0, providers = []\<rparr>"

text \<open>
  The state that the functions of \<^verbatim>\<open>buildAngularModuleSandbox\<close> share: the structure
  being built and the variable \<^verbatim>\<open>currentModuleName\<close>, which starts as \<^verbatim>\<open>null\<close>
  (\<open>None\<close>); and with them what has been written to the inherited values. The name and
  the size of the file being run are what \<^verbatim>\<open>getFileNameFn()\<close> and
  \<^verbatim>\<open>getFileSizeFn()\<close> return.
\<close>

record SandboxState =
  modulesStructure :: ModulesStructure
  currentModuleName :: "string option"
  builtins :: Builtins

text \<open>
  \<^verbatim>\<open>module.dependencies = dependencies\<close> for a \<^verbatim>\<open>module\<close> that is an inherited
  value: \<^verbatim>\<open>Object.prototype\<close> for the name \<^verbatim>\<open>__proto__\<close>, one of the eleven functions,
  or, for the name \<^verbatim>\<open>dependencies\<close>, the array that \<^verbatim>\<open>Object.prototype\<close> was given.
  The array of a call is an array of its own, with no property written to it.
\<close>

definition writeDependencies :: "string \<Rightarrow> string list \<Rightarrow> Builtins \<Rightarrow> Builtins" where
  "writeDependencies key deps b =
     (if key = ''__proto__'' then b\<lparr>prototypeDependencies := Some (deps, None)\<rparr>
      else if key \<in> set Object_prototype_functions
      then b\<lparr>memberDependencies := (memberDependencies b)(key \<mapsto> deps)\<rparr>
      else b\<lparr>prototypeDependencies :=
                map_option (\<lambda>(array, own). (array, Some deps)) (prototypeDependencies b)\<rparr>)"

text \<open>
  \<^verbatim>\<open>sandbox.angular.module(name, dependencies)\<close>. The dependencies are an array
  (\<open>Some\<close>; an array is truthy, the empty one too) or left out (\<open>None\<close>). The result is
  the exception, if the call throws, and the state.

  \<^verbatim>\<open>modules[name] || (modules[name] = new ModuleConfig())\<close> adds a module for a name
  that gives \<^verbatim>\<open>undefined\<close>, and takes what is there otherwise. What is there may be
  an inherited value: then no module is added, the dependencies, if given, are written
  to that value, and \<^verbatim>\<open>module.files.indexOf\<close> throws a \<^verbatim>\<open>TypeError\<close>, since the value
  has no \<^verbatim>\<open>files\<close>; \<^verbatim>\<open>currentModuleName\<close> stays as it was.
\<close>

definition angular_module ::
  "string \<Rightarrow> nat \<Rightarrow> string \<Rightarrow> string list option \<Rightarrow> SandboxState
     \<Rightarrow> error option \<times> SandboxState"
where
  "angular_module fileName fileSize moduleName deps st =
     (case get (builtins st) (modulesStructure st) moduleName of
        Inherited _ \<Rightarrow>
          (Some TypeError,
           (case deps of
              Some ds \<Rightarrow> st\<lparr>builtins := writeDependencies moduleName ds (builtins st)\<rparr>
            | None \<Rightarrow> st))
      | found \<Rightarrow>
          (let module0 = (case found of Own m \<Rightarrow> m | _ \<Rightarrow> new_ModuleConfig);
               module1 = (case deps of
                            Some ds \<Rightarrow> module0\<lparr>dependencies := ds\<rparr>
                          | None \<Rightarrow> module0);
               module2 = (if indexOf (files module1) fileName < 0
                          then (case deps of
                                  Some ds \<Rightarrow> module1\<lparr>files := [fileName] @ files module1\<rparr>
                                | None \<Rightarrow> module1\<lparr>files := files module1 @ [fileName]\<rparr>)
                               \<lparr>size' := size' module1 + fileSize\<rparr>
                          else module1)
           in (None,
               st\<lparr>modulesStructure :=
                     (case found of
                        Own m \<Rightarrow> AList.update moduleName module2 (modulesStructure st)
                      | _ \<Rightarrow> put (modulesStructure st) moduleName module2),
                   currentModuleName := Some moduleName\<rparr>)))"

text \<open>
  The second argument of \<^verbatim>\<open>factory\<close>, \<^verbatim>\<open>service\<close> and the like: an array, with its
  elements written as strings (the last one is the function), a function with the
  number of its parameters, or anything else.
\<close>

datatype ctor = ArrayConstructor "string list" | FunctionConstructor nat | OtherValue

text \<open>
  \<^verbatim>\<open>validateConstructor(name, constructor)\<close>. What goes to \<^verbatim>\<open>console.error\<close> is not
  part of the state. \<^verbatim>\<open>!currentModuleName\<close> holds for \<^verbatim>\<open>null\<close> and for the empty
  string. \<^verbatim>\<open>modules[currentModuleName].providers.some\<close> throws a \<^verbatim>\<open>TypeError\<close> unless
  the current name is a module of the structure (which it is whenever
  \<^verbatim>\<open>angular.module\<close> has set it).
\<close>

definition validateConstructor ::
  "string \<Rightarrow> ctor \<Rightarrow> SandboxState \<Rightarrow> error option \<times> SandboxState"
where
  "validateConstructor providerName constructor st =
     (let isArrayMinifyReadyConstructor =
            (case constructor of ArrayConstructor _ \<Rightarrow> True | _ \<Rightarrow> False);
          isFunctionMinifyReadyConstructor =
            (case constructor of FunctionConstructor n \<Rightarrow> n = 0 | _ \<Rightarrow> False)
      in if \<not> isArrayMinifyReadyConstructor \<and> \<not> isFunctionMinifyReadyConstructor
         then (None, st)
         else (case currentModuleName st of
                 None \<Rightarrow> (None, st)
               | Some current \<Rightarrow>
                   if current = [] then (None, st)
                   else (case get (builtins st) (modulesStructure st) current of
                           Own m \<Rightarrow>
                             if list_ex (\<lambda>provider. name provider = providerName) (providers m)
                             then (None, st)
                             else
                               (let config = \<lparr>name = providerName,
                                              injects = (case constructor of
                                                           ArrayConstructor elements \<Rightarrow> butlast elements
                                                         | _ \<Rightarrow> [])\<rparr>
                                in (None, st\<lparr>modulesStructure :=
                                      AList.update current (m\<lparr>providers := providers m @ [config]\<rparr>)
                                        (modulesStructure st)\<rparr>))
                         | _ \<Rightarrow> (Some TypeError, st))))"

text \<open>
  What \<^verbatim>\<open>new serviceConstructor()\<close> gives in \<^verbatim>\<open>provider\<close>: it throws, or the object
  has no \<^verbatim>\<open>$get\<close>, or a \<^verbatim>\<open>$get\<close> without keys of its own (a plain function), or
  a \<^verbatim>\<open>$get\<close> with keys.
\<close>

datatype constructed = ConstructorThrows | MissingGet | EmptyGet | Get ctor

definition provider ::
  "string \<Rightarrow> ctor \<Rightarrow> constructed \<Rightarrow> SandboxState \<Rightarrow> error option \<times> SandboxState"
where
  "provider providerName constructor made st =
     (case (case constructor of
              ArrayConstructor _ \<Rightarrow> validateConstructor (providerName @ ''Provider'') constructor st
            | _ \<Rightarrow> (None, st)) of
        (Some e, st1) \<Rightarrow> (Some e, st1)
      | (None, st1) \<Rightarrow>
          (case made of
             ConstructorThrows \<Rightarrow> (None, st1)
           | MissingGet \<Rightarrow> (None, st1)
           | EmptyGet \<Rightarrow> (None, st1)
           | Get g \<Rightarrow> validateConstructor providerName g st1))"

text \<open>
  A call of a function of the sandbox, as a file's text makes it. \<open>NoOp\<close> stands for
  \<^verbatim>\<open>value\<close>, \<^verbatim>\<open>constant\<close>, \<^verbatim>\<open>decorator\<close>, \<^verbatim>\<open>animation\<close>, \<^verbatim>\<open>filter\<close>, \<^verbatim>\<open>config\<close>
  and \<^verbatim>\<open>run\<close>, which change nothing.
\<close>

datatype call =
    Module string "string list option"
  | Provider string ctor constructed
  | Factory string ctor
  | Service string ctor
  | Controller string ctor
  | Directive string ctor
  | NoOp

fun sandbox_call ::
  "string \<Rightarrow> nat \<Rightarrow> call \<Rightarrow> SandboxState \<Rightarrow> error option \<times> SandboxState"
where
  "sandbox_call fileName fileSize (Module moduleName deps) st =
     angular_module fileName fileSize moduleName deps st"
| "sandbox_call fileName fileSize (Provider providerName constructor made) st =
     provider providerName constructor made st"
| "sandbox_call fileName fileSize (Factory providerName constructor) st =
     validateConstructor providerName constructor st"
| "sandbox_call fileName fileSize (Service providerName constructor) st =
     validateConstructor providerName constructor st"
| "sandbox_call fileName fileSize (Controller providerName constructor) st =
     validateConstructor providerName constructor st"
| "sandbox_call fileName fileSize (Directive providerName constructor) st =
     validateConstructor providerName constructor st"
| "sandbox_call fileName fileSize NoOp st = (None, st)"

text \<open>
  \<^verbatim>\<open>vm.runInContext(file, angularModuleSandbox)\<close> runs the text of a file. Of that run
  the model keeps what the sandbox can see of it: the calls of its functions that the
  run made, in the order it made them, and the point where the text itself throws, if
  it does. An array that a call passes is taken as it is at the call: the text
  does not change it afterwards, and passes it to no other call. All files run in one context, so what a run does may depend on the runs
  before it; the list is what this run did. The state is shared with the caller, so
  what was done before a throw stays done; the result is the exception, if any, and the
  state.
\<close>

datatype statement = Call call | Throw error

fun runInContext ::
  "string \<Rightarrow> nat \<Rightarrow> statement list \<Rightarrow> SandboxState \<Rightarrow> error option \<times> SandboxState"
where
  "runInContext fileName fileSize [] st = (None, st)"
| "runInContext fileName fileSize (Throw e # rest) st = (Some e, st)"
| "runInContext fileName fileSize (Call c # rest) st =
     (case sandbox_call fileName fileSize c st of
        (Some e, st') \<Rightarrow> (Some e, st')
      | (None, st') \<Rightarrow> runInContext fileName fileSize rest st')"

text \<open>
  A file as \<^verbatim>\<open>buildModulesStructure\<close> meets it: \<^verbatim>\<open>currentFileName\<close> (the name after
  \<^verbatim>\<open>filePathMapper\<close>), \<^verbatim>\<open>currentFileSize\<close> and the text. The body of the inner
  \<^verbatim>\<open>forEach\<close> runs the text inside \<^verbatim>\<open>try\<close>, and its \<^verbatim>\<open>catch\<close> does nothing.
  \<open>scan\<close> is the two loops, from a state of the sandbox.
\<close>

record SourceFile =
  currentFileName :: string
  currentFileSize :: nat
  fileText :: "statement list"

definition processFile :: "SandboxState \<Rightarrow> SourceFile \<Rightarrow> SandboxState" where
  "processFile st file =
     (case runInContext (currentFileName file) (currentFileSize file) (fileText file) st of
        (None, st') \<Rightarrow> st'
      | (Some e, st') \<Rightarrow> st')"

definition scan :: "SandboxState \<Rightarrow> SourceFile list list \<Rightarrow> SandboxState" where
  "scan st dirs = foldl (\<lambda>st filenames. foldl processFile st filenames) st dirs"

text \<open>
  \<^verbatim>\<open>buildModulesStructure(dirs, filePathMapper)\<close>, in an engine whose inherited values
  are in the state \<open>b\<close>.
\<close>

definition buildModulesStructure :: "Builtins \<Rightarrow> SourceFile list list \<Rightarrow> ModulesStructure" where
  "buildModulesStructure b dirs =
     modulesStructure
       (scan \<lparr>modulesStructure = [], currentModuleName = None, builtins = b\<rparr> dirs)"

subsection \<open>validateInjects\<close>

text \<open>
  The index \<^verbatim>\<open>moduleByProvider\<close> is a plain object too. Every provider name is assigned
  the name of its module, in the order of \<^verbatim>\<open>Object.keys\<close> and of the providers, a later
  assignment replacing an earlier one; an assignment to \<^verbatim>\<open>__proto__\<close> of a string does
  nothing. A key of \<^verbatim>\<open>modules\<close> always has its value. \<open>moduleByProvider\<close> is the own
  properties of the index.
\<close>

definition moduleByProvider :: "ModulesStructure \<Rightarrow> (string \<rightharpoonup> string)" where
  "moduleByProvider modules =
     foldl (\<lambda>prev moduleName.
              case map_of modules moduleName of
                None \<Rightarrow> prev
              | Some m \<Rightarrow>
                  foldl (\<lambda>prev provider.
                           if name provider = ''__proto__'' then prev
                           else prev(name provider \<mapsto> moduleName))
                        prev (providers m))
           Map.empty (Object_keys modules)"

text \<open>
  What \<^verbatim>\<open>moduleByProvider[inject]\<close> gives: \<^verbatim>\<open>undefined\<close>, the name of a module, or an
  inherited value, of which the message needs the text that \<^verbatim>\<open>+\<close> makes of it: for a
  function the text of a native function, for \<^verbatim>\<open>Object.prototype\<close> the text
  \<^verbatim>\<open>[object Object]\<close>, for an array its elements with commas between them. The function
  at \<^verbatim>\<open>constructor\<close> is \<^verbatim>\<open>Object\<close>; the other ten are named as their keys.
\<close>

datatype owner = NoOwner | OwnerModule string | InheritedValue string

fun join :: "string list \<Rightarrow> string \<Rightarrow> string" where
  "join [] separator = []"
| "join [x] separator = x"
| "join (x # y # rest) separator = x @ separator @ join (y # rest) separator"

definition owner_of :: "Builtins \<Rightarrow> ModulesStructure \<Rightarrow> string \<Rightarrow> owner" where
  "owner_of b modules inject =
     (case moduleByProvider modules inject of
        Some moduleName \<Rightarrow> OwnerModule moduleName
      | None \<Rightarrow>
          if inject = ''__proto__'' then InheritedValue ''[object Object]''
          else if inject \<in> set Object_prototype_functions
          then InheritedValue
                 (''function '' @ (if inject = ''constructor'' then ''Object'' else inject)
                    @ ''() { [native code] }'')
          else if inject = ''dependencies''
          then (case prototypeDependencies b of
                  None \<Rightarrow> NoOwner
                | Some (array, own) \<Rightarrow> InheritedValue (join array '',''))
          else NoOwner)"

definition injectError :: "string \<Rightarrow> string \<Rightarrow> string \<Rightarrow> string \<Rightarrow> string" where
  "injectError moduleName providerName inject moduleDependency =
     ''Module '' @ moduleName @ '' have provider '' @ providerName @ '' which injects '' @ inject
       @ '' defined in '' @ moduleDependency @ '', but module '' @ moduleName
       @ '' do not depends on module '' @ moduleDependency @ '' explicitly''"

text \<open>
  \<^verbatim>\<open>invalidInject\<close>: \<^verbatim>\<open>moduleDependency &&\<close> is false for \<^verbatim>\<open>undefined\<close> and for the
  empty string, and true for an inherited value, which is no string and so differs from
  the name of the module and from every dependency. The result is the text of
  \<^verbatim>\<open>moduleDependency\<close> for the message when the inject is invalid.
\<close>

definition invalidInject ::
  "Builtins \<Rightarrow> ModulesStructure \<Rightarrow> string \<Rightarrow> ModuleConfig \<Rightarrow> string \<Rightarrow> string option"
where
  "invalidInject b modules moduleName m inject =
     (case owner_of b modules inject of
        NoOwner \<Rightarrow> None
      | OwnerModule moduleDependency \<Rightarrow>
          if moduleDependency \<noteq> [] \<and> moduleDependency \<noteq> moduleName
             \<and> \<not> list_ex (\<lambda>depName. depName = moduleDependency) (dependencies m)
          then Some moduleDependency else None
      | InheritedValue text \<Rightarrow> Some text)"

definition validateInjects :: "Builtins \<Rightarrow> ModulesStructure \<Rightarrow> string list" where
  "validateInjects b modules =
     foldl (\<lambda>errors moduleName.
              case map_of modules moduleName of
                None \<Rightarrow> errors
              | Some m \<Rightarrow>
                  foldl (\<lambda>errors provider.
                           foldl (\<lambda>errors inject.
                                    case invalidInject b modules moduleName m inject of
                                      Some moduleDependency \<Rightarrow>
                                        errors @ [injectError moduleName (name provider) inject
                                                    moduleDependency]
                                    | None \<Rightarrow> errors)
                                 errors (injects provider))
                        errors (providers m))
           [] (Object_keys modules)"

section \<open>The notions of the claims\<close>

text \<open>
  The words of the claims that are not functions of the program: the graph of a modules
  structure, a load order, the entry of a module in a state of the sandbox. They are
  used in the statements and in the proofs only.
\<close>

text \<open>
  The graph the claims speak of: an edge goes from a module of the structure to each of
  its dependencies that is itself a module of the structure. A walk is a list of names
  whose consecutive pairs are edges.
\<close>

definition is_edge :: "ModulesStructure \<Rightarrow> string \<Rightarrow> string \<Rightarrow> bool" where
  "is_edge modules a b =
     (case map_of modules a of
        None \<Rightarrow> False
      | Some m \<Rightarrow> b \<in> set (dependencies m) \<and> map_of modules b \<noteq> None)"

definition edges :: "ModulesStructure \<Rightarrow> (string \<times> string) set" where
  "edges modules = {(a, b). is_edge modules a b}"

fun walk :: "ModulesStructure \<Rightarrow> string list \<Rightarrow> bool" where
  "walk modules (a # b # rest) = (is_edge modules a b \<and> walk modules (b # rest))"
| "walk modules _ = True"

text \<open>
  No dependency of a module of the structure is the name of an inherited value: each
  is a module of the structure or gives \<^verbatim>\<open>undefined\<close>. In an engine in its first state
  these are the structures in which no dependency that is not a module is one of the
  twelve names of \<^verbatim>\<open>Object.prototype\<close>.
\<close>

definition plain_dependencies :: "Builtins \<Rightarrow> ModulesStructure \<Rightarrow> bool" where
  "plain_dependencies b modules =
     list_all (\<lambda>(moduleName, m).
                 list_all (\<lambda>dep. case get b modules dep of Inherited _ \<Rightarrow> False | _ \<Rightarrow> True)
                   (dependencies m))
       modules"

text \<open>
  A load order: every dependency of a listed module that is a module of the structure
  stands at an earlier position of the list.
\<close>

definition dependencies_first :: "ModulesStructure \<Rightarrow> string list \<Rightarrow> bool" where
  "dependencies_first modules names =
     (\<forall>i < length names. \<forall>d. is_edge modules (names ! i) d \<longrightarrow> (\<exists>j < i. names ! j = d))"

text \<open>
  The modules that can be reached from a list of names: the names that are modules, and
  everything their dependencies lead to.
\<close>

definition reachable_from :: "ModulesStructure \<Rightarrow> string list \<Rightarrow> string set" where
  "reachable_from modules deps =
     {x. \<exists>d \<in> set deps. map_of modules d \<noteq> None \<and> (d, x) \<in> (edges modules)\<^sup>*}"

text \<open>The callback of the \<^verbatim>\<open>reduce\<close> in \<^verbatim>\<open>doResolve\<close>, named.\<close>

definition resolveStep ::
  "Builtins \<Rightarrow> ModulesStructure \<Rightarrow> string list \<Rightarrow> string \<Rightarrow> (error + string list) option"
where
  "resolveStep b modules prev dep =
     (case get b modules dep of
        Undefined \<Rightarrow> Some (Inr prev)
      | Own m \<Rightarrow>
          Option.bind (doResolve b modules (dependencies m))
            (\<lambda>r. case r of
                    Inl e \<Rightarrow> Some (Inl e)
                  | Inr resolved \<Rightarrow> Some (Inr ((prev @ resolved) @ [dep])))
      | Inherited None \<Rightarrow> Some (Inl TypeError)
      | Inherited (Some inheritedDeps) \<Rightarrow>
          Option.bind (doResolve b modules inheritedDeps)
            (\<lambda>r. case r of
                    Inl e \<Rightarrow> Some (Inl e)
                  | Inr resolved \<Rightarrow> Some (Inr ((prev @ resolved) @ [dep]))))"

text \<open>
  The entry of a module in a state of the sandbox, as \<^verbatim>\<open>angular.module\<close> takes it when
  the name is not the name of an inherited value:
  \<^verbatim>\<open>modules[name] || new ModuleConfig()\<close>.
\<close>

definition moduleEntry :: "SandboxState \<Rightarrow> string \<Rightarrow> ModuleConfig" where
  "moduleEntry st moduleName =
     (case map_of (modulesStructure st) moduleName of
        Some m \<Rightarrow> m
      | None \<Rightarrow> new_ModuleConfig)"

text \<open>No module of the state has a file twice in its file list.\<close>

definition files_distinct :: "SandboxState \<Rightarrow> bool" where
  "files_distinct st =
     (\<forall>moduleName m. map_of (modulesStructure st) moduleName = Some m \<longrightarrow> distinct (files m))"


subsection \<open>The scenarios\<close>

text \<open>The graphs of the scenarios; only the dependencies matter in them.\<close>

definition G_ABC :: ModulesStructure where
  "G_ABC = [(''A'', \<lparr>dependencies = [], files = [], size' = 0, providers = []\<rparr>),
            (''B'', \<lparr>dependencies = [''A''], files = [], size' = 0, providers = []\<rparr>),
            (''C'', \<lparr>dependencies = [''B''], files = [], size' = 0, providers = []\<rparr>)]"

definition G_AB :: ModulesStructure where
  "G_AB = [(''A'', \<lparr>dependencies = [''B''], files = [], size' = 0, providers = []\<rparr>),
           (''B'', \<lparr>dependencies = [''A''], files = [], size' = 0, providers = []\<rparr>)]"

definition G_lasso :: ModulesStructure where
  "G_lasso = [(''n'', \<lparr>dependencies = [''a''], files = [], size' = 0, providers = []\<rparr>),
              (''a'', \<lparr>dependencies = [''a''], files = [], size' = 0, providers = []\<rparr>)]"

definition G_dangling :: ModulesStructure where
  "G_dangling = [(''A'', \<lparr>dependencies = [''X''], files = [], size' = 0, providers = []\<rparr>)]"

text \<open>
  A module whose only dependency is no module of the structure and is the name of a
  member of \<^verbatim>\<open>Object.prototype\<close>.
\<close>

definition G_constructor :: ModulesStructure where
  "G_constructor =
     [(''A'', \<lparr>dependencies = [''constructor''], files = [], size' = 0, providers = []\<rparr>)]"

text \<open>A cycle, behind a dependency of the same kind.\<close>

definition G_AB_constructor :: ModulesStructure where
  "G_AB_constructor =
     [(''A'', \<lparr>dependencies = [''constructor'', ''B''], files = [], size' = 0,
               providers = []\<rparr>),
      (''B'', \<lparr>dependencies = [''A''], files = [], size' = 0, providers = []\<rparr>)]"

text \<open>The files of the scenarios, and the state in which a scan starts.\<close>

definition file_a :: SourceFile where
  "file_a = \<lparr>currentFileName = ''a.js'', currentFileSize = 1,
             fileText = [Call (Module ''a'' (Some [])), Throw (Error ''not defined'')]\<rparr>"

text \<open>
  \<^verbatim>\<open>a1.js\<close> refers to module \<open>m\<close>; \<^verbatim>\<open>a2.js\<close> refers to it and then declares it.
\<close>

definition file_a1 :: SourceFile where
  "file_a1 = \<lparr>currentFileName = ''a1.js'', currentFileSize = 1,
              fileText = [Call (Module ''m'' None)]\<rparr>"

definition file_a2 :: SourceFile where
  "file_a2 = \<lparr>currentFileName = ''a2.js'', currentFileSize = 1,
              fileText = [Call (Module ''m'' None), Call (Module ''m'' (Some [''x'']))]\<rparr>"

text \<open>A file whose text is \<^verbatim>\<open>angular.module('toString')\<close>.\<close>

definition file_toString :: SourceFile where
  "file_toString = \<lparr>currentFileName = ''t.js'', currentFileSize = 1,
                    fileText = [Call (Module ''toString'' None)]\<rparr>"

text \<open>A file whose text is \<^verbatim>\<open>angular.module('lib')\<close>.\<close>

definition file_lib :: SourceFile where
  "file_lib = \<lparr>currentFileName = ''lib.js'', currentFileSize = 4,
               fileText = [Call (Module ''lib'' None)]\<rparr>"

definition st_empty :: SandboxState where
  "st_empty = \<lparr>modulesStructure = [], currentModuleName = None, builtins = pristine\<rparr>"

text \<open>
  A file whose text is
  \<^verbatim>\<open>angular.module('X', []).factory('p', ['constructor', function(c) {}])\<close>, and the
  structure that a scan of it builds.
\<close>

definition file_x :: SourceFile where
  "file_x = \<lparr>currentFileName = ''x.js'', currentFileSize = 1,
             fileText = [Call (Module ''X'' (Some [])),
                         Call (Factory ''p'' (ArrayConstructor [''constructor'',
                                                               ''function(c) {}'']))]\<rparr>"

definition G_X :: ModulesStructure where
  "G_X = [(''X'', \<lparr>dependencies = [], files = [''x.js''], size' = 1,
                   providers = [\<lparr>name = ''p'', injects = [''constructor'']\<rparr>]\<rparr>)]"

text \<open>
  Module \<open>X\<close> has provider \<open>p\<close>, which injects \<open>q\<close> and \<open>$http\<close>; \<open>q\<close> is a provider of
  module \<open>Y\<close>, and no provider is named \<open>$http\<close>.
\<close>

definition G_XY :: ModulesStructure where
  "G_XY = [(''X'', \<lparr>dependencies = [], files = [], size' = 0,
                     providers = [\<lparr>name = ''p'', injects = [''q'', ''$http'']\<rparr>]\<rparr>),
           (''Y'', \<lparr>dependencies = [], files = [], size' = 0,
                     providers = [\<lparr>name = ''q'', injects = []\<rparr>]\<rparr>)]"

section \<open>Lemmas\<close>

subsection \<open>What doFind throws and when it returns\<close>

lemma get_Own: "map_of G k = Some m \<Longrightarrow> get b G k = Own m"
  by (simp add: get_def)

lemma get_absent: "map_of G k = None \<Longrightarrow> get b G k = inherited b k"
  by (simp add: get_def)

lemma inherited_not_Own: "inherited b k \<noteq> Own m"
  by (simp add: inherited_def split: option.splits prod.splits)

lemma plain_dependenciesD:
  assumes "plain_dependencies b G" and "map_of G k = Some m" and "d \<in> set (dependencies m)"
  shows "map_of G d \<noteq> None \<or> get b G d = Undefined"
proof -
  from assms(2) have "(k, m) \<in> set G" by (rule map_of_SomeD)
  with assms(1,3) have "case get b G d of Inherited _ \<Rightarrow> False | _ \<Rightarrow> True"
    unfolding plain_dependencies_def list_all_iff by fastforce
  then show ?thesis
    by (cases "map_of G d") (auto simp: get_def inherited_not_Own split: property.splits)
qed

lemma only_CRef:
  "plain_dependencies b G \<Longrightarrow> map_of G m \<noteq> None \<Longrightarrow> doFind b G m t = Inl e
     \<Longrightarrow> \<exists>c. e = CRef c"
  "plain_dependencies b G \<Longrightarrow> \<forall>d \<in> set ds. map_of G d \<noteq> None \<or> get b G d = Undefined
     \<Longrightarrow> forEachDep b G m t ds = Inl e \<Longrightarrow> \<exists>c. e = CRef c"
proof (induction b G m t and b G m t ds arbitrary: e and e rule: doFind_forEachDep.induct)
  case (1 builtins modules modul trail)
  from 1(4) obtain mc where mc: "map_of modules modul = Some mc" by auto
  then have g: "get builtins modules modul = Own mc" by (rule get_Own)
  show ?case
  proof (cases "modul \<in> set trail")
    case True
    with 1(5) show ?thesis by (auto simp: doFind.simps[of builtins modules modul trail])
  next
    case False
    with 1(5) g have thrown:
      "forEachDep builtins modules modul trail (dependencies mc) = Inl e"
      by (simp add: doFind.simps[of builtins modules modul trail])
    have "\<forall>d \<in> set (dependencies mc). map_of modules d \<noteq> None \<or> get builtins modules d = Undefined"
      using plain_dependenciesD[OF 1(3) mc] by blast
    with 1(1)[OF False g 1(3) _ thrown] show ?thesis by blast
  qed
next
  case (2 builtins modules modul trail)
  then show ?case by simp
next
  case (3 builtins modules modul trail dep deps)
  from 3(5) have rest: "\<forall>d \<in> set deps. map_of modules d \<noteq> None \<or> get builtins modules d = Undefined"
    and here: "map_of modules dep \<noteq> None \<or> get builtins modules dep = Undefined"
    by simp_all
  show ?case
  proof (cases "get builtins modules dep = Undefined")
    case True
    with 3(6) have "forEachDep builtins modules modul trail deps = Inl e" by simp
    with 3(3)[OF _ 3(4) rest] True show ?thesis by simp
  next
    case False
    with here have own: "map_of modules dep \<noteq> None" by blast
    show ?thesis
    proof (cases "doFind builtins modules dep (trail @ [modul])")
      case (Inl e')
      with False 3(6) have "e' = e" by simp
      with 3(1)[OF False 3(4) own] Inl show ?thesis by blast
    next
      case (Inr u)
      with False 3(6) have "forEachDep builtins modules modul trail deps = Inl e" by simp
      with 3(2)[OF False Inr 3(4) rest] show ?thesis by blast
    qed
  qed
qed

lemma forEachDep_returns:
  "forEachDep b G m t ds = Inr () \<Longrightarrow> d \<in> set ds \<Longrightarrow> map_of G d \<noteq> None
     \<Longrightarrow> doFind b G d (t @ [m]) = Inr ()"
  by (induction ds) (auto simp: get_def split: if_splits sum.splits)

lemma doFind_returns_notin: "doFind b G m t = Inr () \<Longrightarrow> m \<notin> set t"
  by (auto simp: doFind.simps[of b G m t] split: if_splits)

lemma doFind_returns_edge:
  "doFind b G m t = Inr () \<Longrightarrow> is_edge G m d \<Longrightarrow> doFind b G d (t @ [m]) = Inr ()"
  by (auto simp: doFind.simps[of b G m t] is_edge_def get_def
      split: if_splits option.splits dest: forEachDep_returns)

lemma doFind_returns_trancl:
  assumes "(m, x) \<in> (edges G)\<^sup>+" and "doFind b G m t = Inr ()"
  shows "\<exists>t'. m \<in> set t' \<and> doFind b G x t' = Inr ()"
  using assms
proof (induction rule: trancl_induct)
  case (base y)
  then have "doFind b G y (t @ [m]) = Inr ()"
    by (auto simp: edges_def dest: doFind_returns_edge)
  then show ?case by (intro exI[of _ "t @ [m]"]) simp
next
  case (step y z)
  then obtain t' where "m \<in> set t'" "doFind b G y t' = Inr ()" by blast
  with step.hyps(2) have "doFind b G z (t' @ [y]) = Inr ()"
    by (auto simp: edges_def dest: doFind_returns_edge)
  with \<open>m \<in> set t'\<close> show ?case by (intro exI[of _ "t' @ [y]"]) simp
qed

lemma doFind_returns_no_cycle:
  "doFind b G m t = Inr () \<Longrightarrow> (m, m) \<notin> (edges G)\<^sup>+"
  using doFind_returns_trancl doFind_returns_notin by blast

lemma findLoop_None:
  "findLoop b G ns = Inr None \<Longrightarrow> n \<in> set ns \<Longrightarrow> doFind b G n [] = Inr ()"
  by (induction ns) (auto split: sum.splits error.splits)

lemma edge_source_key: "is_edge G a b \<Longrightarrow> a \<in> set (Object_keys G)"
  by (auto simp: is_edge_def Object_keys_def split: option.splits dest: map_of_SomeD
      intro: rev_image_eqI)

lemma trancl_source: "(a, b) \<in> r\<^sup>+ \<Longrightarrow> \<exists>c. (a, c) \<in> r"
  by (meson converse_tranclE)

lemma absent_acyclic:
  assumes "findCircularReference b G = Inr None"
  shows "acyclic (edges G)"
proof (rule acyclicI, rule allI, rule notI)
  fix x assume c: "(x, x) \<in> (edges G)\<^sup>+"
  then obtain y where "is_edge G x y"
    using trancl_source[OF c] by (auto simp: edges_def)
  then have "x \<in> set (Object_keys G)" by (rule edge_source_key)
  then have "doFind b G x [] = Inr ()"
    using assms findLoop_None by (simp add: findCircularReference_def)
  with c show False using doFind_returns_no_cycle by blast
qed

lemma thrown_trail:
  "plain_dependencies b G \<Longrightarrow> map_of G m \<noteq> None \<or> m \<in> set t
     \<Longrightarrow> doFind b G m t = Inl (CRef c) \<Longrightarrow>
     \<exists>w. c = t @ m # w \<and> walk G (m # w) \<and> last c \<in> set (butlast c)
        \<and> (distinct t \<longrightarrow> distinct (butlast c))"
  "plain_dependencies b G
     \<Longrightarrow> \<forall>d \<in> set ds. map_of G d \<noteq> None \<or> get b G d = Undefined
     \<Longrightarrow> forEachDep b G m t ds = Inl (CRef c) \<Longrightarrow>
     \<exists>d w. d \<in> set ds \<and> map_of G d \<noteq> None \<and> c = t @ m # d # w \<and> walk G (d # w)
        \<and> last c \<in> set (butlast c) \<and> (distinct (t @ [m]) \<longrightarrow> distinct (butlast c))"
proof (induction b G m t and b G m t ds arbitrary: c and c rule: doFind_forEachDep.induct)
  case (1 builtins modules modul trail)
  show ?case
  proof (cases "modul \<in> set trail")
    case True
    with 1(5) have "c = trail @ [modul]"
      by (simp add: doFind.simps[of builtins modules modul trail])
    with True show ?thesis by simp
  next
    case False
    with 1(4) obtain mc where mc: "map_of modules modul = Some mc" by auto
    then have g: "get builtins modules modul = Own mc" by (rule get_Own)
    with False 1(5) have thrown:
      "forEachDep builtins modules modul trail (dependencies mc) = Inl (CRef c)"
      by (simp add: doFind.simps[of builtins modules modul trail])
    have "\<forall>d \<in> set (dependencies mc). map_of modules d \<noteq> None \<or> get builtins modules d = Undefined"
      using plain_dependenciesD[OF 1(3) mc] by blast
    from 1(1)[OF False g 1(3) this thrown] obtain d w where dw:
      "d \<in> set (dependencies mc)" "map_of modules d \<noteq> None" "c = trail @ modul # d # w"
      "walk modules (d # w)" "last c \<in> set (butlast c)"
      "distinct (trail @ [modul]) \<longrightarrow> distinct (butlast c)"
      by blast
    have "is_edge modules modul d"
      using mc dw(1,2) by (simp add: is_edge_def)
    with dw False show ?thesis
      by (intro exI[of _ "d # w"]) simp
  qed
next
  case (2 builtins modules modul trail)
  then show ?case by simp
next
  case (3 builtins modules modul trail dep deps)
  from 3(5) have rest: "\<forall>d \<in> set deps. map_of modules d \<noteq> None \<or> get builtins modules d = Undefined"
    and here: "map_of modules dep \<noteq> None \<or> get builtins modules dep = Undefined"
    by simp_all
  have "\<exists>d w. (d = dep \<or> d \<in> set deps) \<and> map_of modules d \<noteq> None \<and> c = trail @ modul # d # w
          \<and> walk modules (d # w) \<and> last c \<in> set (butlast c)
          \<and> (distinct (trail @ [modul]) \<longrightarrow> distinct (butlast c))"
  proof (cases "get builtins modules dep = Undefined")
    case True
    with 3(6) have "forEachDep builtins modules modul trail deps = Inl (CRef c)" by simp
    with 3(3)[OF _ 3(4) rest] True show ?thesis by auto
  next
    case False
    with here have own: "map_of modules dep \<noteq> None" by blast
    show ?thesis
    proof (cases "doFind builtins modules dep (trail @ [modul])")
      case (Inl e)
      with False 3(6) have "e = CRef c" by simp
      with Inl have "doFind builtins modules dep (trail @ [modul]) = Inl (CRef c)" by simp
      from 3(1)[OF False 3(4) _ this] own obtain w where
        "c = (trail @ [modul]) @ dep # w" "walk modules (dep # w)" "last c \<in> set (butlast c)"
        "distinct (trail @ [modul]) \<longrightarrow> distinct (butlast c)"
        by blast
      with own show ?thesis
        by (intro exI[of _ dep] exI[of _ w]) simp
    next
      case (Inr u)
      with False 3(6) have "forEachDep builtins modules modul trail deps = Inl (CRef c)" by simp
      from 3(2)[OF False Inr 3(4) rest this] show ?thesis by blast
    qed
  qed
  then show ?case by auto
qed

lemma walk_append_right: "walk G (xs @ ys) \<Longrightarrow> walk G ys"
proof (induction xs)
  case Nil
  then show ?case by simp
next
  case (Cons x xs)
  then show ?case by (cases "xs @ ys") auto
qed

lemma walk_trancl: "walk G (a # w) \<Longrightarrow> w \<noteq> [] \<Longrightarrow> (a, last w) \<in> (edges G)\<^sup>+"
proof (induction w arbitrary: a)
  case Nil
  then show ?case by simp
next
  case (Cons b w)
  show ?case
  proof (cases w)
    case Nil
    with Cons.prems show ?thesis by (auto simp: edges_def)
  next
    case (Cons c w')
    with Cons.prems Cons.IH[of b] have "(a, b) \<in> edges G" "(b, last w) \<in> (edges G)\<^sup>+"
      by (auto simp: edges_def)
    with Cons show ?thesis by simp
  qed
qed

lemma lasso_split:
  assumes "last c \<in> set (butlast c)"
  shows "\<exists>pre cyc. c = pre @ cyc \<and> 2 \<le> length cyc \<and> hd cyc = last cyc"
proof -
  from assms obtain pre rest where "butlast c = pre @ last c # rest"
    by (auto simp: in_set_conv_decomp)
  moreover from assms have "c \<noteq> []" by auto
  ultimately have "c = pre @ (last c # rest @ [last c])"
    by (metis append_Cons append_assoc append_butlast_last_id)
  then show ?thesis
    by (intro exI[of _ pre] exI[of _ "last c # rest @ [last c]"]) simp
qed

lemma lasso_cyclic:
  assumes "walk G c" and "c = pre @ cyc" and "2 \<le> length cyc" and "hd cyc = last cyc"
  shows "\<not> acyclic (edges G)"
proof -
  from assms(3) obtain a w where cyc: "cyc = a # w" "w \<noteq> []"
    by (cases cyc) (auto simp: Suc_le_eq)
  from assms(1,2) have "walk G cyc" by (auto dest: walk_append_right)
  with cyc have "(a, last w) \<in> (edges G)\<^sup>+" by (auto dest: walk_trancl)
  moreover from cyc assms(4) have "last w = a" by simp
  ultimately show ?thesis by (auto simp: acyclic_def)
qed

lemma findLoop_Some:
  "findLoop b G ns = Inr (Some c) \<Longrightarrow> \<exists>n \<in> set ns. doFind b G n [] = Inl (CRef c)"
  by (induction ns) (auto split: sum.splits error.splits)

lemma key_present: "n \<in> set (Object_keys G) \<Longrightarrow> map_of G n \<noteq> None"
  by (auto simp: Object_keys_def map_of_eq_None_iff)

lemma findLoop_total:
  "plain_dependencies b G \<Longrightarrow> set ns \<subseteq> set (Object_keys G) \<Longrightarrow> \<exists>r. findLoop b G ns = Inr r"
proof (induction ns)
  case Nil
  then show ?case by simp
next
  case (Cons n ns)
  then have "map_of G n \<noteq> None" by (simp add: key_present)
  with Cons.prems(1) have "\<And>e. doFind b G n [] = Inl e \<Longrightarrow> \<exists>c. e = CRef c"
    by (rule only_CRef(1))
  with Cons show ?case
    by (cases "doFind b G n []") (auto split: error.splits)
qed

lemma findCircularReference_total:
  "plain_dependencies b G \<Longrightarrow> \<exists>r. findCircularReference b G = Inr r"
  unfolding findCircularReference_def by (rule findLoop_total) simp_all

lemma found_trail:
  assumes "plain_dependencies b G" and "findCircularReference b G = Inr (Some c)"
  shows "walk G c \<and> distinct (butlast c) \<and> last c \<in> set (butlast c)"
proof -
  from assms(2) obtain n where n: "n \<in> set (Object_keys G)" "doFind b G n [] = Inl (CRef c)"
    unfolding findCircularReference_def by (blast dest: findLoop_Some)
  from n(1) have "map_of G n \<noteq> None \<or> n \<in> set []" by (simp add: key_present)
  from thrown_trail(1)[OF assms(1) this n(2)] show ?thesis by auto
qed

lemma found_cyclic:
  assumes "plain_dependencies b G" and "findCircularReference b G = Inr (Some c)"
  shows "\<not> acyclic (edges G)"
proof -
  from found_trail[OF assms] have w: "walk G c" and l: "last c \<in> set (butlast c)" by auto
  from lasso_split[OF l] obtain pre cyc where
    "c = pre @ cyc" "2 \<le> length cyc" "hd cyc = last cyc" by blast
  with w show ?thesis by (rule lasso_cyclic)
qed

lemma absent_iff_acyclic:
  assumes "plain_dependencies b G"
  shows "findCircularReference b G = Inr None \<longleftrightarrow> acyclic (edges G)"
proof
  assume "findCircularReference b G = Inr None"
  then show "acyclic (edges G)" by (rule absent_acyclic)
next
  assume a: "acyclic (edges G)"
  obtain r where r: "findCircularReference b G = Inr r"
    using findCircularReference_total[OF assms] by blast
  show "findCircularReference b G = Inr None"
  proof (cases r)
    case None
    with r show ?thesis by simp
  next
    case (Some c)
    with r a found_cyclic[OF assms] show ?thesis by blast
  qed
qed

text \<open>
  On a graph with a cycle the search never reports that there is none: it returns a
  trail or throws.
\<close>

lemma cyclic_not_absent:
  "\<not> acyclic (edges G) \<Longrightarrow> findCircularReference b G \<noteq> Inr None"
  using absent_acyclic by blast

subsection \<open>dropDuplicates and load orders\<close>

lemma indexOf_notin: "x \<notin> set xs \<Longrightarrow> indexOf xs x = -1"
  by (induction xs) auto

lemma indexOf_in: "x \<in> set xs \<Longrightarrow> 0 \<le> indexOf xs x \<and> indexOf xs x < int (length xs)"
  by (induction xs) (auto simp: Let_def)

lemma indexOf_append_in: "x \<in> set xs \<Longrightarrow> indexOf (xs @ ys) x = indexOf xs x"
  by (induction xs) (auto simp: Let_def)

lemma indexOf_append_notin: "x \<notin> set xs \<Longrightarrow> indexOf (xs @ [x]) x = int (length xs)"
  by (induction xs) (auto simp: Let_def)

lemma dropDuplicates_snoc:
  "dropDuplicates (xs @ [x]) = dropDuplicates xs @ (if x \<in> set xs then [] else [x])"
proof -
  have z: "zip (xs @ [x]) [0..<length (xs @ [x])] = zip xs [0..<length xs] @ [(x, length xs)]"
    by simp
  have old: "filter (\<lambda>(element, index). int index = indexOf (xs @ [x]) element)
               (zip xs [0..<length xs])
           = filter (\<lambda>(element, index). int index = indexOf xs element) (zip xs [0..<length xs])"
    by (rule filter_cong) (auto simp: indexOf_append_in dest: set_zip_leftD)
  have new: "(int (length xs) = indexOf (xs @ [x]) x) = (x \<notin> set xs)"
    using indexOf_in[of x xs] by (auto simp: indexOf_append_notin indexOf_append_in)
  show ?thesis
    unfolding dropDuplicates_def z filter_append old using new by simp
qed

lemma dropDuplicates_Nil: "dropDuplicates [] = []"
  by (simp add: dropDuplicates_def)

lemma set_dropDuplicates: "set (dropDuplicates xs) = set xs"
  by (induction xs rule: rev_induct) (auto simp: dropDuplicates_snoc dropDuplicates_Nil)

lemma distinct_dropDuplicates: "distinct (dropDuplicates xs)"
  by (induction xs rule: rev_induct)
     (auto simp: dropDuplicates_snoc dropDuplicates_Nil set_dropDuplicates)

lemma dropDuplicates_distinct: "distinct xs \<Longrightarrow> dropDuplicates xs = xs"
  by (induction xs rule: rev_induct) (auto simp: dropDuplicates_snoc dropDuplicates_Nil)

lemma dependencies_firstD:
  "dependencies_first G xs \<Longrightarrow> i < length xs \<Longrightarrow> is_edge G (xs ! i) d \<Longrightarrow> \<exists>j<i. xs ! j = d"
  unfolding dependencies_first_def by blast

lemma dependencies_first_snoc:
  "dependencies_first G (xs @ [x]) \<longleftrightarrow>
     dependencies_first G xs \<and> (\<forall>d. is_edge G x d \<longrightarrow> d \<in> set xs)"
proof
  assume a: "dependencies_first G (xs @ [x])"
  have "dependencies_first G xs"
    unfolding dependencies_first_def
  proof (intro allI impI)
    fix i d assume i: "i < length xs" and e: "is_edge G (xs ! i) d"
    from i have "i < length (xs @ [x])" by simp
    moreover from i e have "is_edge G ((xs @ [x]) ! i) d" by (simp add: nth_append)
    ultimately obtain j where "j < i" "(xs @ [x]) ! j = d"
      using dependencies_firstD[OF a] by blast
    with i have "j < i \<and> xs ! j = d" by (simp add: nth_append)
    then show "\<exists>j<i. xs ! j = d" by blast
  qed
  moreover have "\<forall>d. is_edge G x d \<longrightarrow> d \<in> set xs"
  proof (intro allI impI)
    fix d assume e: "is_edge G x d"
    have "length xs < length (xs @ [x])" by simp
    moreover from e have "is_edge G ((xs @ [x]) ! length xs) d" by simp
    ultimately obtain j where "j < length xs" "(xs @ [x]) ! j = d"
      using dependencies_firstD[OF a] by blast
    then have "j < length xs \<and> xs ! j = d" by (simp add: nth_append)
    then show "d \<in> set xs" unfolding in_set_conv_nth by blast
  qed
  ultimately show "dependencies_first G xs \<and> (\<forall>d. is_edge G x d \<longrightarrow> d \<in> set xs)" ..
next
  assume a: "dependencies_first G xs \<and> (\<forall>d. is_edge G x d \<longrightarrow> d \<in> set xs)"
  show "dependencies_first G (xs @ [x])"
    unfolding dependencies_first_def
  proof (intro allI impI)
    fix i d assume i: "i < length (xs @ [x])" and e: "is_edge G ((xs @ [x]) ! i) d"
    show "\<exists>j<i. (xs @ [x]) ! j = d"
    proof (cases "i < length xs")
      case True
      with e have "is_edge G (xs ! i) d" by (simp add: nth_append)
      with a True obtain j where "j < i" "xs ! j = d"
        using dependencies_firstD by blast
      with True have "j < i \<and> (xs @ [x]) ! j = d" by (simp add: nth_append)
      then show ?thesis by blast
    next
      case False
      with i have il: "i = length xs" by simp
      from e have "is_edge G x d" unfolding il by simp
      with a have "d \<in> set xs" by blast
      then obtain j where j: "j < length xs" "xs ! j = d"
        unfolding in_set_conv_nth by blast
      then have "j < i \<and> (xs @ [x]) ! j = d" unfolding il by (simp add: nth_append)
      then show ?thesis by blast
    qed
  qed
qed

lemma dependencies_first_Nil: "dependencies_first G []"
  by (simp add: dependencies_first_def)

lemma dependencies_first_append:
  "dependencies_first G xs \<Longrightarrow> dependencies_first G ys \<Longrightarrow> dependencies_first G (xs @ ys)"
proof (induction ys rule: rev_induct)
  case Nil
  then show ?case by simp
next
  case (snoc y ys)
  then have "dependencies_first G (xs @ ys)" "\<forall>d. is_edge G y d \<longrightarrow> d \<in> set ys"
    by (auto simp: dependencies_first_snoc)
  then have "dependencies_first G ((xs @ ys) @ [y])"
    unfolding dependencies_first_snoc by auto
  then show ?case by simp
qed

lemma dependencies_first_dropDuplicates:
  "dependencies_first G xs \<Longrightarrow> dependencies_first G (dropDuplicates xs)"
proof (induction xs rule: rev_induct)
  case Nil
  then show ?case by (simp add: dropDuplicates_Nil)
next
  case (snoc x xs)
  then show ?case
    by (auto simp: dropDuplicates_snoc dependencies_first_snoc set_dropDuplicates)
qed

subsection \<open>doResolve on a graph without cycles\<close>

lemma reachable_from_Nil: "reachable_from G [] = {}"
  by (simp add: reachable_from_def)

lemma reachable_from_Cons_absent:
  "map_of G d = None \<Longrightarrow> reachable_from G (d # ds) = reachable_from G ds"
  by (auto simp: reachable_from_def)

lemma reachable_from_deps:
  assumes "map_of G d = Some mc"
  shows "reachable_from G (dependencies mc) = {x. (d, x) \<in> (edges G)\<^sup>+}"
proof (intro set_eqI iffI)
  fix x assume "x \<in> reachable_from G (dependencies mc)"
  then obtain e where e: "e \<in> set (dependencies mc)" "map_of G e \<noteq> None" "(e, x) \<in> (edges G)\<^sup>*"
    by (auto simp: reachable_from_def)
  with assms have "(d, e) \<in> edges G" by (simp add: edges_def is_edge_def)
  with e(3) show "x \<in> {x. (d, x) \<in> (edges G)\<^sup>+}" by simp
next
  fix x assume "x \<in> {x. (d, x) \<in> (edges G)\<^sup>+}"
  then obtain e where "(d, e) \<in> edges G" "(e, x) \<in> (edges G)\<^sup>*"
    by (auto dest: tranclD)
  with assms show "x \<in> reachable_from G (dependencies mc)"
    by (auto simp: reachable_from_def edges_def is_edge_def)
qed

lemma reachable_from_Cons_present:
  assumes "map_of G d = Some mc"
  shows "reachable_from G (d # ds)
          = reachable_from G (dependencies mc) \<union> {d} \<union> reachable_from G ds"
proof -
  have "{x. (d, x) \<in> (edges G)\<^sup>*} = {x. (d, x) \<in> (edges G)\<^sup>+} \<union> {d}"
    by (auto simp: rtrancl_eq_or_trancl)
  with assms show ?thesis
    unfolding reachable_from_deps[OF assms] by (auto simp: reachable_from_def)
qed

lemma doResolve_unfold:
  "doResolve b G ds =
     Option.bind (reduce (resolveStep b G) ds [])
       (\<lambda>r. case r of Inl e \<Rightarrow> Some (Inl e) | Inr array \<Rightarrow> Some (Inr (dropDuplicates array)))"
  by (subst doResolve.simps) (simp add: resolveStep_def[abs_def])

lemma reduce_resolveStep:
  assumes "\<And>d mc. d \<in> set ds \<Longrightarrow> map_of G d = Some mc \<Longrightarrow>
             \<exists>r. doResolve b G (dependencies mc) = Some (Inr r) \<and> dependencies_first G r
                  \<and> set r = reachable_from G (dependencies mc)"
    and "\<forall>d \<in> set ds. map_of G d \<noteq> None \<or> get b G d = Undefined"
    and "dependencies_first G prev"
  shows "\<exists>a. reduce (resolveStep b G) ds prev = Some (Inr a) \<and> dependencies_first G a
              \<and> set a = set prev \<union> reachable_from G ds"
  using assms
proof (induction ds arbitrary: prev)
  case Nil
  then show ?case by (simp add: reachable_from_Nil)
next
  case (Cons d ds)
  from Cons.prems(2) have rest: "\<forall>d \<in> set ds. map_of G d \<noteq> None \<or> get b G d = Undefined"
    by simp
  show ?case
  proof (cases "map_of G d")
    case None
    with Cons.prems(2) have "get b G d = Undefined" by simp
    then have "reduce (resolveStep b G) (d # ds) prev = reduce (resolveStep b G) ds prev"
      by (simp add: resolveStep_def)
    moreover from Cons.IH[of prev] Cons.prems(1,3) rest obtain a where
      "reduce (resolveStep b G) ds prev = Some (Inr a)" "dependencies_first G a"
      "set a = set prev \<union> reachable_from G ds"
      by auto
    ultimately show ?thesis using None by (simp add: reachable_from_Cons_absent)
  next
    case (Some mc)
    from Cons.prems(1)[of d mc] Some obtain r where r:
      "doResolve b G (dependencies mc) = Some (Inr r)" "dependencies_first G r"
      "set r = reachable_from G (dependencies mc)"
      by auto
    let ?prev = "(prev @ r) @ [d]"
    have step: "reduce (resolveStep b G) (d # ds) prev = reduce (resolveStep b G) ds ?prev"
      using get_Own[OF Some, of b] r(1) by (simp add: resolveStep_def)
    have "\<forall>e. is_edge G d e \<longrightarrow> e \<in> set (prev @ r)"
    proof (intro allI impI)
      fix e assume "is_edge G d e"
      then have "(d, e) \<in> (edges G)\<^sup>+" by (auto simp: edges_def)
      then show "e \<in> set (prev @ r)"
        using r(3) reachable_from_deps[OF Some] by simp
    qed
    moreover have "dependencies_first G (prev @ r)"
      using Cons.prems(3) r(2) by (rule dependencies_first_append)
    ultimately have "dependencies_first G ?prev"
      unfolding dependencies_first_snoc by blast
    with Cons.IH[of ?prev] Cons.prems(1) rest obtain a where a:
      "reduce (resolveStep b G) ds ?prev = Some (Inr a)" "dependencies_first G a"
      "set a = set ?prev \<union> reachable_from G ds"
      by auto
    have "set a = set prev \<union> reachable_from G (d # ds)"
      unfolding a(3) reachable_from_Cons_present[OF Some] using r(3) by auto
    with a step show ?thesis by simp
  qed
qed

lemma edge_target_key: "is_edge G a b \<Longrightarrow> b \<in> set (Object_keys G)"
  by (auto simp: is_edge_def Object_keys_def map_of_eq_None_iff split: option.splits)

lemma finite_edges: "finite (edges G)"
proof (rule finite_subset)
  show "edges G \<subseteq> set (Object_keys G) \<times> set (Object_keys G)"
    by (auto simp: edges_def dest: edge_source_key edge_target_key)
qed simp

lemma doResolve_deps:
  assumes "acyclic (edges G)" and "plain_dependencies b G"
  shows "map_of G d = Some mc \<Longrightarrow>
           \<exists>r. doResolve b G (dependencies mc) = Some (Inr r) \<and> dependencies_first G r
                \<and> set r = reachable_from G (dependencies mc)"
proof -
  have "wf ((edges G)\<inverse>)"
    using finite_edges assms(1) by (rule finite_acyclic_wf_converse)
  then show "map_of G d = Some mc \<Longrightarrow>
           \<exists>r. doResolve b G (dependencies mc) = Some (Inr r) \<and> dependencies_first G r
                \<and> set r = reachable_from G (dependencies mc)"
  proof (induction d arbitrary: mc rule: wf_induct_rule)
    case (less d)
    have "\<exists>a. reduce (resolveStep b G) (dependencies mc) [] = Some (Inr a)
              \<and> dependencies_first G a
              \<and> set a = set [] \<union> reachable_from G (dependencies mc)"
    proof (rule reduce_resolveStep)
      fix e mc' assume "e \<in> set (dependencies mc)" "map_of G e = Some mc'"
      with less.prems have "(e, d) \<in> (edges G)\<inverse>" by (simp add: edges_def is_edge_def)
      then show "\<exists>r. doResolve b G (dependencies mc') = Some (Inr r) \<and> dependencies_first G r
                  \<and> set r = reachable_from G (dependencies mc')"
        using \<open>map_of G e = Some mc'\<close> by (rule less.IH)
    next
      show "\<forall>d \<in> set (dependencies mc). map_of G d \<noteq> None \<or> get b G d = Undefined"
        using plain_dependenciesD[OF assms(2) less.prems] by blast
    qed (rule dependencies_first_Nil)
    then obtain a where "reduce (resolveStep b G) (dependencies mc) [] = Some (Inr a)"
      "dependencies_first G a" "set a = reachable_from G (dependencies mc)"
      by auto
    then show ?case
      by (simp add: doResolve_unfold[of b G "dependencies mc"] dependencies_first_dropDuplicates
          set_dropDuplicates)
  qed
qed

lemma doResolve_acyclic:
  assumes "acyclic (edges G)" and "plain_dependencies b G"
    and "\<forall>d \<in> set ds. map_of G d \<noteq> None \<or> get b G d = Undefined"
  shows "\<exists>r. doResolve b G ds = Some (Inr r) \<and> distinct r \<and> dependencies_first G r
             \<and> set r = reachable_from G ds"
proof -
  have "\<exists>a. reduce (resolveStep b G) ds [] = Some (Inr a) \<and> dependencies_first G a
            \<and> set a = set [] \<union> reachable_from G ds"
    using assms(3)
    by (intro reduce_resolveStep) (auto intro: doResolve_deps[OF assms(1,2)] dependencies_first_Nil)
  then obtain a where "reduce (resolveStep b G) ds [] = Some (Inr a)"
    "dependencies_first G a" "set a = reachable_from G ds"
    by auto
  then show ?thesis
    by (simp add: doResolve_unfold[of b G ds] dependencies_first_dropDuplicates
        set_dropDuplicates distinct_dropDuplicates)
qed

lemma doResolve_root:
  assumes "acyclic (edges G)" and "plain_dependencies b G" and "map_of G M = Some mc"
  shows "\<exists>r. doResolve b G (dependencies mc) = Some (Inr r)
             \<and> doResolve b G [M] = Some (Inr (r @ [M]))
             \<and> distinct (r @ [M]) \<and> dependencies_first G (r @ [M])
             \<and> set r = {x. (M, x) \<in> (edges G)\<^sup>+}"
proof -
  have "\<forall>d \<in> set (dependencies mc). map_of G d \<noteq> None \<or> get b G d = Undefined"
    using plain_dependenciesD[OF assms(2,3)] by blast
  from doResolve_acyclic[OF assms(1,2) this] obtain r where r:
    "doResolve b G (dependencies mc) = Some (Inr r)" "distinct r"
    "set r = reachable_from G (dependencies mc)"
    by auto
  have s: "set r = {x. (M, x) \<in> (edges G)\<^sup>+}"
    using r(3) reachable_from_deps[OF assms(3)] by simp
  with assms(1) have "M \<notin> set r" by (auto simp: acyclic_def)
  with r(2) have d: "distinct (r @ [M])" by simp
  have "doResolve b G [M] = Some (Inr (dropDuplicates (r @ [M])))"
    using get_Own[OF assms(3), of b] r(1)
    by (simp add: doResolve_unfold[of b G "[M]"] resolveStep_def)
  with d have m: "doResolve b G [M] = Some (Inr (r @ [M]))"
    by (simp add: dropDuplicates_distinct)
  have "\<forall>d \<in> set [M]. map_of G d \<noteq> None \<or> get b G d = Undefined"
    using assms(3) by simp
  from doResolve_acyclic[OF assms(1,2) this] m have "dependencies_first G (r @ [M])"
    by auto
  with d s r(1) m show ?thesis by simp
qed

lemma resolveDependencies_load_order:
  assumes "acyclic (edges G)" and "plain_dependencies b G" and "map_of G M = Some mc"
  shows "\<exists>names. resolveDependencies b M G = Some (Inr names) \<and> distinct names
            \<and> dependencies_first G names \<and> set names = {x. (M, x) \<in> (edges G)\<^sup>*}"
proof -
  from assms(1) have none: "findCircularReference b G = Inr None"
    by (simp add: absent_iff_acyclic[OF assms(2)])
  from doResolve_root[OF assms] obtain r where r:
    "doResolve b G [M] = Some (Inr (r @ [M]))" "distinct (r @ [M])"
    "dependencies_first G (r @ [M])" "set r = {x. (M, x) \<in> (edges G)\<^sup>+}"
    by blast
  have "set (r @ [M]) = {x. (M, x) \<in> (edges G)\<^sup>*}"
    using r(4) by (auto simp: rtrancl_eq_or_trancl)
  with r none show ?thesis
    by (intro exI[of _ "r @ [M]"]) (simp add: resolveDependencies_def)
qed

subsection \<open>The scenarios evaluated\<close>

lemma doFind_throws:
  "doFind b G m t = Inl e \<Longrightarrow> (\<exists>c. e = CRef c) \<or> e = TypeError"
  "forEachDep b G m t ds = Inl e \<Longrightarrow> (\<exists>c. e = CRef c) \<or> e = TypeError"
proof (induction b G m t and b G m t ds arbitrary: e and e rule: doFind_forEachDep.induct)
  case (1 builtins modules modul trail)
  show ?case
  proof (cases "modul \<in> set trail")
    case True
    with 1(3) show ?thesis by (auto simp: doFind.simps[of builtins modules modul trail])
  next
    case False
    show ?thesis
    proof (cases "get builtins modules modul")
      case Undefined
      with False 1(3) show ?thesis by (simp add: doFind.simps[of builtins modules modul trail])
    next
      case (Own mc)
      with False 1(3) 1(1)[OF False Own] show ?thesis
        by (simp add: doFind.simps[of builtins modules modul trail])
    next
      case (Inherited d)
      show ?thesis
      proof (cases d)
        case None
        with Inherited False 1(3) show ?thesis
          by (simp add: doFind.simps[of builtins modules modul trail])
      next
        case (Some deps)
        with Inherited False 1(3) 1(2)[OF False Inherited Some] show ?thesis
          by (simp add: doFind.simps[of builtins modules modul trail])
      qed
    qed
  qed
next
  case (2 builtins modules modul trail)
  then show ?case by simp
next
  case (3 builtins modules modul trail dep deps)
  show ?case
  proof (cases "get builtins modules dep = Undefined")
    case True
    with 3(3) 3(4) show ?thesis by simp
  next
    case False
    show ?thesis
    proof (cases "doFind builtins modules dep (trail @ [modul])")
      case (Inl e')
      with False 3(4) have "e' = e" by simp
      with 3(1)[OF False] Inl show ?thesis by blast
    next
      case (Inr u)
      with False 3(4) 3(2)[OF False Inr] show ?thesis by simp
    qed
  qed
qed

lemma findLoop_throws: "findLoop b G ns = Inl e \<Longrightarrow> e = TypeError"
proof (induction ns)
  case Nil
  then show ?case by simp
next
  case (Cons n ns)
  show ?case
  proof (cases "doFind b G n []")
    case (Inl e')
    with doFind_throws(1)[OF Inl] Cons.prems show ?thesis by (auto split: error.splits)
  next
    case (Inr u)
    with Cons show ?thesis by simp
  qed
qed

lemma findCircularReference_throws: "findCircularReference b G = Inl e \<Longrightarrow> e = TypeError"
  unfolding findCircularReference_def by (rule findLoop_throws)

lemma plain_ABC: "plain_dependencies pristine G_ABC"
  by (simp add: plain_dependencies_def G_ABC_def get_def)

lemma plain_AB: "plain_dependencies pristine G_AB"
  by (simp add: plain_dependencies_def G_AB_def get_def)

lemma plain_lasso: "plain_dependencies pristine G_lasso"
  by (simp add: plain_dependencies_def G_lasso_def get_def)

lemma ev_ABC: "findCircularReference pristine G_ABC = Inr None"
  by (simp add: findCircularReference_def Object_keys_def G_ABC_def doFind.simps get_def)

lemma ev_AB: "findCircularReference pristine G_AB = Inr (Some [''A'', ''B'', ''A''])"
  by (simp add: findCircularReference_def Object_keys_def G_AB_def doFind.simps get_def)

lemma ev_lasso: "findCircularReference pristine G_lasso = Inr (Some [''n'', ''a'', ''a''])"
  by (simp add: findCircularReference_def Object_keys_def G_lasso_def doFind.simps get_def)

lemma ev_dangling: "findCircularReference pristine G_dangling = Inr None"
  by (simp add: findCircularReference_def Object_keys_def G_dangling_def doFind.simps get_def
      inherited_def Object_prototype_functions_def pristine_def)

lemma get_constructor: "get pristine G_constructor ''constructor'' = Inherited None"
  by (simp add: get_def G_constructor_def inherited_def Object_prototype_functions_def
      pristine_def)

lemma get_A: "get pristine G_constructor ''A''
    = Own \<lparr>dependencies = [''constructor''], files = [], size' = 0, providers = []\<rparr>"
  by (simp add: get_def G_constructor_def)

lemma ev_constructor_doFind: "doFind pristine G_constructor ''constructor'' [''A''] = Inl TypeError"
  by (simp add: doFind.simps get_constructor)

lemma ev_constructor_forEachDep:
  "forEachDep pristine G_constructor ''A'' [] [''constructor''] = Inl TypeError"
  by (simp add: get_constructor ev_constructor_doFind)

lemma ev_constructor: "findCircularReference pristine G_constructor = Inl TypeError"
proof -
  have "doFind pristine G_constructor ''A'' [] = Inl TypeError"
    by (simp add: doFind.simps[of _ _ "''A''"] get_A get_constructor ev_constructor_doFind)
  then show ?thesis
    by (simp add: findCircularReference_def Object_keys_def G_constructor_def)
qed

lemma acyclic_constructor: "acyclic (edges G_constructor)"
proof -
  have "edges G_constructor = {}"
    by (auto simp: edges_def is_edge_def G_constructor_def split: option.splits if_splits)
  then show ?thesis by (simp add: acyclic_def)
qed

lemma ev_resolve: "resolveDependencies pristine ''C'' G_ABC = Some (Inr [''A'', ''B'', ''C''])"
  by (simp add: resolveDependencies_def ev_ABC)
     (simp add: G_ABC_def doResolve_unfold resolveStep_def get_def dropDuplicates_distinct
        dropDuplicates_Nil)

lemma cyclic_AB_constructor: "\<not> acyclic (edges G_AB_constructor)"
proof -
  have "(''A'', ''B'') \<in> edges G_AB_constructor" "(''B'', ''A'') \<in> edges G_AB_constructor"
    by (simp_all add: edges_def is_edge_def G_AB_constructor_def)
  then have "(''A'', ''A'') \<in> (edges G_AB_constructor)\<^sup>+" by (rule trancl_into_trancl2[OF _ r_into_trancl])
  then show ?thesis by (auto simp: acyclic_def)
qed

lemma ev_AB_constructor: "findCircularReference pristine G_AB_constructor = Inl TypeError"
proof -
  have g: "get pristine G_AB_constructor ''constructor'' = Inherited None"
    by (simp add: get_def G_AB_constructor_def inherited_def Object_prototype_functions_def
        pristine_def)
  have a: "get pristine G_AB_constructor ''A''
      = Own \<lparr>dependencies = [''constructor'', ''B''], files = [], size' = 0, providers = []\<rparr>"
    by (simp add: get_def G_AB_constructor_def)
  have "doFind pristine G_AB_constructor ''constructor'' [''A''] = Inl TypeError"
    by (simp add: doFind.simps g)
  then have "doFind pristine G_AB_constructor ''A'' [] = Inl TypeError"
    by (simp add: doFind.simps[of _ _ "''A''"] a g)
  then show ?thesis
    by (simp add: findCircularReference_def Object_keys_def G_AB_constructor_def)
qed

subsection \<open>The sandbox and the scan\<close>

lemma indexOf_negative: "(indexOf xs x < 0) = (x \<notin> set xs)"
  using indexOf_in[of x xs] indexOf_notin[of x xs] by auto

lemma keys_update_present:
  "map_of al k = Some v' \<Longrightarrow> map fst (AList.update k v al) = map fst al"
  by (induction al) (auto split: if_splits)

lemma map_of_insert:
  "map_of (xs @ (key, m) # ys) k = (if k = key \<and> map_of xs key = None then Some m
                                    else map_of (xs @ ys) k)"
  by (induction xs) auto

lemma map_of_put:
  assumes "map_of modules key = None"
  shows "map_of (put modules key m) k = (if k = key then Some m else map_of modules k)"
proof (cases "array_index key")
  case None
  with assms show ?thesis by (auto simp: put_def map_add_def split: option.splits)
next
  case (Some i)
  let ?lower = "\<lambda>(k, _). case array_index k of Some j \<Rightarrow> j < i | None \<Rightarrow> False"
  have split: "takeWhile ?lower modules @ dropWhile ?lower modules = modules" by simp
  have "map_of (takeWhile ?lower modules) key = None"
  proof (rule ccontr)
    assume "map_of (takeWhile ?lower modules) key \<noteq> None"
    then obtain v where "(key, v) \<in> set (takeWhile ?lower modules)"
      by (auto dest: map_of_SomeD)
    then have "(key, v) \<in> set modules" by (rule set_takeWhileD[THEN conjunct1])
    with assms show False by (auto simp: map_of_eq_None_iff intro: rev_image_eqI)
  qed
  then have "map_of (takeWhile ?lower modules @ (key, m) # dropWhile ?lower modules) k
      = (if k = key then Some m else map_of modules k)"
    unfolding map_of_insert split by simp
  with Some show ?thesis by (simp add: put_def Let_def)
qed

lemma get_Undefined: "get b G k = Undefined \<Longrightarrow> map_of G k = None"
  by (auto simp: get_def split: option.splits)

lemma get_Own_iff: "get b G k = Own m \<longleftrightarrow> map_of G k = Some m"
  by (auto simp: get_def inherited_not_Own split: option.splits)

lemma get_Inherited: "get b G k = Inherited d \<Longrightarrow> map_of G k = None"
  by (auto simp: get_def split: option.splits)

lemma angular_module_returns:
  "fst (angular_module fileName fileSize moduleName deps st) = None
     \<longleftrightarrow> (\<forall>d. get (builtins st) (modulesStructure st) moduleName \<noteq> Inherited d)"
  by (cases "get (builtins st) (modulesStructure st) moduleName")
     (simp_all add: angular_module_def Let_def)

lemma angular_module_throws:
  assumes "get (builtins st) (modulesStructure st) moduleName = Inherited d"
  shows "fst (angular_module fileName fileSize moduleName deps st) = Some TypeError"
    and "modulesStructure (snd (angular_module fileName fileSize moduleName deps st))
           = modulesStructure st"
    and "currentModuleName (snd (angular_module fileName fileSize moduleName deps st))
           = currentModuleName st"
  using assms by (cases deps; simp add: angular_module_def)+

lemma angular_module_entry:
  assumes "fst (angular_module fileName fileSize moduleName deps st) = None"
  shows "map_of (modulesStructure (snd (angular_module fileName fileSize moduleName deps st)))
           moduleName
     = Some (let m0 = moduleEntry st moduleName;
                 m1 = (case deps of Some ds \<Rightarrow> m0\<lparr>dependencies := ds\<rparr> | None \<Rightarrow> m0)
             in if fileName \<in> set (files m0) then m1
                else m1\<lparr>files := (case deps of
                                     Some ds \<Rightarrow> fileName # files m0
                                   | None \<Rightarrow> files m0 @ [fileName]),
                        size' := size' m0 + fileSize\<rparr>)"
proof (cases "get (builtins st) (modulesStructure st) moduleName")
  case Undefined
  then have "map_of (modulesStructure st) moduleName = None" by (rule get_Undefined)
  with Undefined show ?thesis
    by (cases deps)
       (simp_all add: angular_module_def moduleEntry_def Let_def map_of_put indexOf_negative)
next
  case (Own m)
  then have "map_of (modulesStructure st) moduleName = Some m" by (simp add: get_Own_iff)
  with Own show ?thesis
    by (cases deps)
       (simp_all add: angular_module_def moduleEntry_def Let_def update_conv' indexOf_negative)
next
  case (Inherited d)
  with assms show ?thesis by (simp add: angular_module_returns)
qed

lemma angular_module_others:
  assumes "other \<noteq> moduleName"
  shows "map_of (modulesStructure (snd (angular_module fileName fileSize moduleName deps st)))
           other
       = map_of (modulesStructure st) other"
proof (cases "get (builtins st) (modulesStructure st) moduleName")
  case Undefined
  then have "map_of (modulesStructure st) moduleName = None" by (rule get_Undefined)
  with Undefined assms show ?thesis
    by (simp add: angular_module_def Let_def map_of_put)
next
  case (Own m)
  with assms show ?thesis by (simp add: angular_module_def Let_def update_conv')
next
  case (Inherited d)
  then show ?thesis by (simp add: angular_module_throws(2))
qed


lemma bare_reference_creates_module:
  assumes "get (builtins st) (modulesStructure st) moduleName = Undefined"
  shows "fst (angular_module fileName fileSize moduleName None st) = None"
    and "map_of (modulesStructure (snd (angular_module fileName fileSize moduleName None st)))
           moduleName
         = Some \<lparr>dependencies = [], files = [fileName], size' = fileSize, providers = []\<rparr>"
proof -
  from assms show r: "fst (angular_module fileName fileSize moduleName None st) = None"
    by (simp add: angular_module_returns)
  from assms have "moduleEntry st moduleName = new_ModuleConfig"
    by (simp add: moduleEntry_def get_Undefined)
  then show "map_of (modulesStructure (snd (angular_module fileName fileSize moduleName None st)))
           moduleName
         = Some \<lparr>dependencies = [], files = [fileName], size' = fileSize, providers = []\<rparr>"
    by (simp add: angular_module_entry[OF r] new_ModuleConfig_def)
qed

lemma angular_module_redeclares:
  assumes "map_of (modulesStructure st) moduleName = Some m"
  shows "fst (angular_module fileName fileSize moduleName (Some ds) st) = None"
    and "map_of (modulesStructure (snd (angular_module fileName fileSize moduleName (Some ds) st)))
           moduleName
         = Some (if fileName \<in> set (files m) then m\<lparr>dependencies := ds\<rparr>
                 else m\<lparr>dependencies := ds, files := fileName # files m,
                         size' := size' m + fileSize\<rparr>)"
    and "Object_keys (modulesStructure
            (snd (angular_module fileName fileSize moduleName (Some ds) st)))
         = Object_keys (modulesStructure st)"
proof -
  from assms have g: "get (builtins st) (modulesStructure st) moduleName = Own m"
    by (rule get_Own)
  then show r: "fst (angular_module fileName fileSize moduleName (Some ds) st) = None"
    by (simp add: angular_module_returns)
  from assms have "moduleEntry st moduleName = m" by (simp add: moduleEntry_def)
  then show "map_of (modulesStructure
               (snd (angular_module fileName fileSize moduleName (Some ds) st))) moduleName
         = Some (if fileName \<in> set (files m) then m\<lparr>dependencies := ds\<rparr>
                 else m\<lparr>dependencies := ds, files := fileName # files m,
                         size' := size' m + fileSize\<rparr>)"
    by (simp add: angular_module_entry[OF r] Let_def)
  from g assms show "Object_keys (modulesStructure
            (snd (angular_module fileName fileSize moduleName (Some ds) st)))
         = Object_keys (modulesStructure st)"
    by (simp add: angular_module_def Let_def Object_keys_def keys_update_present)
qed

lemma angular_module_builtins:
  assumes "fst (angular_module fileName fileSize moduleName deps st) = None"
  shows "builtins (snd (angular_module fileName fileSize moduleName deps st)) = builtins st"
  using assms
  by (cases "get (builtins st) (modulesStructure st) moduleName")
     (simp_all add: angular_module_def Let_def)

lemma runInContext_throw:
  "runInContext fileName fileSize (pre @ Throw e # post) st
     = (case runInContext fileName fileSize pre st of
          (None, st') \<Rightarrow> (Some e, st')
        | (Some e', st') \<Rightarrow> (Some e', st'))"
proof (induction pre arbitrary: st)
  case Nil
  show ?case by simp
next
  case (Cons s pre)
  show ?case
  proof (cases s)
    case (Call c)
    with Cons show ?thesis by (simp split: prod.splits option.splits)
  next
    case (Throw e')
    then show ?thesis by simp
  qed
qed

lemma processFile_snd:
  "processFile st file
     = snd (runInContext (currentFileName file) (currentFileSize file) (fileText file) st)"
  by (simp add: processFile_def split: prod.splits option.splits)

lemma processFile_throw:
  "processFile st (src\<lparr>fileText := pre @ Throw e # post\<rparr>)
     = snd (runInContext (currentFileName src) (currentFileSize src) pre st)"
  by (simp add: processFile_snd runInContext_throw split: prod.splits option.splits)

lemma scan_append: "scan st (dirs1 @ dirs2) = scan (scan st dirs1) dirs2"
  by (simp add: scan_def)

lemma scan_Cons: "scan st (filenames # dirs) = scan (foldl processFile st filenames) dirs"
  by (simp add: scan_def)


subsection \<open>The file lists of the scan have no duplicates\<close>

lemma files_distinct_angular_module:
  assumes "files_distinct st"
  shows "files_distinct (snd (angular_module fileName fileSize moduleName deps st))"
proof (cases "fst (angular_module fileName fileSize moduleName deps st)")
  case (Some e)
  then obtain d where "get (builtins st) (modulesStructure st) moduleName = Inherited d"
    using angular_module_returns[of fileName fileSize moduleName deps st] by auto
  from angular_module_throws(2)[OF this] assms show ?thesis
    by (simp add: files_distinct_def)
next
  case None
  show ?thesis
    unfolding files_distinct_def
  proof (intro allI impI)
    fix n m
    assume a: "map_of (modulesStructure (snd (angular_module fileName fileSize moduleName deps st)))
                 n = Some m"
    have d0: "distinct (files (moduleEntry st moduleName))"
      using assms
      by (auto simp: files_distinct_def moduleEntry_def new_ModuleConfig_def split: option.splits)
    show "distinct (files m)"
    proof (cases "n = moduleName")
      case True
      with a have "Some m = Some (let m0 = moduleEntry st moduleName;
                 m1 = (case deps of Some ds \<Rightarrow> m0\<lparr>dependencies := ds\<rparr> | None \<Rightarrow> m0)
             in if fileName \<in> set (files m0) then m1
                else m1\<lparr>files := (case deps of
                                     Some ds \<Rightarrow> fileName # files m0
                                   | None \<Rightarrow> files m0 @ [fileName]),
                        size' := size' m0 + fileSize\<rparr>)"
        using angular_module_entry[OF None] by simp
      with d0 show ?thesis
        by (cases deps) (auto simp: Let_def split: if_splits)
    next
      case False
      with a assms show ?thesis
        by (auto simp: angular_module_others files_distinct_def)
    qed
  qed
qed

lemma files_distinct_validateConstructor:
  "files_distinct st \<Longrightarrow> files_distinct (snd (validateConstructor providerName constructor st))"
  unfolding validateConstructor_def Let_def files_distinct_def
  by (auto simp: update_conv' get_Own_iff split: if_splits option.splits property.splits)

lemma files_distinct_provider:
  assumes "files_distinct st"
  shows "files_distinct (snd (provider providerName constructor made st))"
proof -
  let ?first = "case constructor of
                  ArrayConstructor _ \<Rightarrow>
                    validateConstructor (providerName @ ''Provider'') constructor st
                | _ \<Rightarrow> (None, st)"
  have d: "files_distinct (snd ?first)"
    using assms by (cases constructor) (simp_all add: files_distinct_validateConstructor)
  show ?thesis
  proof (cases ?first)
    case (Pair r st1)
    with d have d1: "files_distinct st1" by simp
    show ?thesis
    proof (cases r)
      case (Some e)
      with Pair d1 show ?thesis by (simp add: provider_def)
    next
      case None
      with Pair d1 show ?thesis
        by (cases made) (simp_all add: provider_def files_distinct_validateConstructor)
    qed
  qed
qed

lemma files_distinct_sandbox_call:
  "files_distinct st \<Longrightarrow> files_distinct (snd (sandbox_call fileName fileSize c st))"
  by (cases c)
     (auto intro: files_distinct_validateConstructor files_distinct_provider
        files_distinct_angular_module)

lemma files_distinct_runInContext:
  "files_distinct st \<Longrightarrow> files_distinct (snd (runInContext fileName fileSize stmts st))"
proof (induction stmts arbitrary: st)
  case Nil
  then show ?case by simp
next
  case (Cons s stmts)
  show ?case
  proof (cases s)
    case (Call c)
    from Cons.prems have d: "files_distinct (snd (sandbox_call fileName fileSize c st))"
      by (rule files_distinct_sandbox_call)
    show ?thesis
    proof (cases "sandbox_call fileName fileSize c st")
      case (Pair r st')
      with d Call Cons.IH[of st'] show ?thesis by (cases r) simp_all
    qed
  next
    case (Throw e)
    with Cons.prems show ?thesis by simp
  qed
qed

lemma files_distinct_processFile: "files_distinct st \<Longrightarrow> files_distinct (processFile st src)"
  by (simp add: processFile_snd files_distinct_runInContext)

lemma files_distinct_files:
  "files_distinct st \<Longrightarrow> files_distinct (foldl processFile st filenames)"
  by (induction filenames arbitrary: st) (simp_all add: files_distinct_processFile)

lemma files_distinct_dirs: "files_distinct st \<Longrightarrow> files_distinct (scan st dirs)"
  by (induction dirs arbitrary: st) (simp_all add: scan_def files_distinct_files)

lemma files_distinct_scan:
  "map_of (buildModulesStructure b dirs) moduleName = Some m \<Longrightarrow> distinct (files m)"
proof -
  have "files_distinct \<lparr>modulesStructure = [], currentModuleName = None, builtins = b\<rparr>"
    by (simp add: files_distinct_def)
  then have "files_distinct
      (scan \<lparr>modulesStructure = [], currentModuleName = None, builtins = b\<rparr> dirs)"
    by (rule files_distinct_dirs)
  then show "map_of (buildModulesStructure b dirs) moduleName = Some m \<Longrightarrow> distinct (files m)"
    unfolding buildModulesStructure_def files_distinct_def by blast
qed

subsection \<open>What a run that throws leaves behind\<close>

lemma validateConstructor_throws:
  "fst (validateConstructor providerName constructor st) = Some e
     \<Longrightarrow> snd (validateConstructor providerName constructor st) = st
         \<and> (\<exists>current. currentModuleName st = Some current
               \<and> (\<forall>m. map_of (modulesStructure st) current \<noteq> Some m))"
  unfolding validateConstructor_def Let_def
  by (auto simp: get_Own_iff split: if_splits option.splits property.splits
      dest: get_Undefined get_Inherited)

lemma validateConstructor_returns:
  "fst (validateConstructor providerName constructor st) = None
     \<Longrightarrow> snd (validateConstructor providerName constructor st) = st
         \<or> (currentModuleName (snd (validateConstructor providerName constructor st))
               = currentModuleName st
             \<and> (\<exists>current m. currentModuleName st = Some current
                  \<and> map_of (modulesStructure (snd (validateConstructor providerName constructor st)))
                       current = Some m))"
  unfolding validateConstructor_def Let_def
  by (auto simp: get_Own_iff update_conv' split: if_splits option.splits property.splits)

lemma provider_throws:
  assumes "fst (provider providerName constructor made st) = Some e"
  shows "modulesStructure (snd (provider providerName constructor made st)) = modulesStructure st"
proof -
  let ?first = "case constructor of
                  ArrayConstructor _ \<Rightarrow>
                    validateConstructor (providerName @ ''Provider'') constructor st
                | _ \<Rightarrow> (None, st)"
  show ?thesis
  proof (cases ?first)
    case (Pair r st1)
    show ?thesis
    proof (cases r)
      case (Some e')
      with Pair have "fst ?first = Some e'" by simp
      then have "snd ?first = st"
        by (cases constructor) (auto dest: validateConstructor_throws)
      with Pair Some show ?thesis by (simp add: provider_def)
    next
      case None
      show ?thesis
      proof (cases made)
        case (Get g)
        with Pair None assms have t: "fst (validateConstructor providerName g st1) = Some e"
          by (simp add: provider_def)
        from Get Pair None validateConstructor_throws[OF t]
        have r: "snd (provider providerName constructor made st) = st1"
          by (simp add: provider_def)
        from validateConstructor_throws[OF t] obtain current where
          c: "currentModuleName st1 = Some current"
             "\<forall>m. map_of (modulesStructure st1) current \<noteq> Some m"
          by blast
        from Pair None have "fst ?first = None" "snd ?first = st1" by simp_all
        then have "st1 = st \<or> (currentModuleName st1 = currentModuleName st
             \<and> (\<exists>current m. currentModuleName st = Some current
                  \<and> map_of (modulesStructure st1) current = Some m))"
          by (cases constructor) (auto dest: validateConstructor_returns)
        with c have "st1 = st" by auto
        with r show ?thesis by simp
      next
        case ConstructorThrows
        with Pair None assms show ?thesis by (simp add: provider_def)
      next
        case MissingGet
        with Pair None assms show ?thesis by (simp add: provider_def)
      next
        case EmptyGet
        with Pair None assms show ?thesis by (simp add: provider_def)
      qed
    qed
  qed
qed

lemma sandbox_call_throws:
  assumes "fst (sandbox_call fileName fileSize c st) = Some e"
  shows "modulesStructure (snd (sandbox_call fileName fileSize c st)) = modulesStructure st"
proof (cases c)
  case (Module moduleName deps)
  with assms obtain d where "get (builtins st) (modulesStructure st) moduleName = Inherited d"
    using angular_module_returns[of fileName fileSize moduleName deps st] by auto
  with Module show ?thesis by (simp add: angular_module_throws(2))
next
  case (Provider providerName constructor made)
  with assms show ?thesis by (simp add: provider_throws)
next
  case (Factory providerName constructor)
  with assms show ?thesis by (auto dest: validateConstructor_throws)
next
  case (Service providerName constructor)
  with assms show ?thesis by (auto dest: validateConstructor_throws)
next
  case (Controller providerName constructor)
  with assms show ?thesis by (auto dest: validateConstructor_throws)
next
  case (Directive providerName constructor)
  with assms show ?thesis by (auto dest: validateConstructor_throws)
next
  case NoOp
  with assms show ?thesis by simp
qed

lemma runInContext_append:
  "runInContext fileName fileSize (pre @ rest) st
     = (case runInContext fileName fileSize pre st of
          (None, st') \<Rightarrow> runInContext fileName fileSize rest st'
        | (Some e, st') \<Rightarrow> (Some e, st'))"
proof (induction pre arbitrary: st)
  case Nil
  show ?case by simp
next
  case (Cons s pre)
  show ?case
  proof (cases s)
    case (Call c)
    with Cons show ?thesis by (simp split: prod.splits option.splits)
  next
    case (Throw e')
    then show ?thesis by simp
  qed
qed

lemma runInContext_fails:
  "fst (runInContext fileName fileSize stmts st) = Some e \<Longrightarrow>
     \<exists>pre rest. stmts = pre @ rest \<and> rest \<noteq> []
        \<and> fst (runInContext fileName fileSize pre st) = None
        \<and> modulesStructure (snd (runInContext fileName fileSize stmts st))
            = modulesStructure (snd (runInContext fileName fileSize pre st))"
proof (induction stmts arbitrary: st)
  case Nil
  then show ?case by simp
next
  case (Cons s stmts)
  show ?case
  proof (cases s)
    case (Throw e')
    then show ?thesis
      by (intro exI[of _ "[]"] exI[of _ "s # stmts"]) simp
  next
    case (Call c)
    show ?thesis
    proof (cases "sandbox_call fileName fileSize c st")
      case (Pair r st')
      show ?thesis
      proof (cases r)
        case (Some e')
        with Pair have "fst (sandbox_call fileName fileSize c st) = Some e'" by simp
        from sandbox_call_throws[OF this] Pair Some Call show ?thesis
          by (intro exI[of _ "[]"] exI[of _ "s # stmts"]) simp
      next
        case None
        with Pair Call Cons.prems have "fst (runInContext fileName fileSize stmts st') = Some e"
          by simp
        from Cons.IH[OF this] obtain pre rest where
          "stmts = pre @ rest" "rest \<noteq> []" "fst (runInContext fileName fileSize pre st') = None"
          "modulesStructure (snd (runInContext fileName fileSize stmts st'))
            = modulesStructure (snd (runInContext fileName fileSize pre st'))"
          by blast
        with Pair None Call show ?thesis
          by (intro exI[of _ "s # pre"] exI[of _ rest]) simp
      qed
    qed
  qed
qed

subsection \<open>The scans of the scenarios\<close>

lemmas scan_simps = buildModulesStructure_def scan_def processFile_def angular_module_def
  Let_def new_ModuleConfig_def get_def inherited_def pristine_def
  Object_prototype_functions_def put_def array_index_def

lemma ev_build_a:
  "buildModulesStructure pristine [[file_a]]
     = [(''a'', \<lparr>dependencies = [], files = [''a.js''], size' = 1, providers = []\<rparr>)]"
  by (simp add: scan_simps file_a_def)

lemma ev_build_m:
  "buildModulesStructure pristine [[file_a1, file_a2]]
     = [(''m'', \<lparr>dependencies = [''x''], files = [''a1.js'', ''a2.js''], size' = 2,
                providers = []\<rparr>)]"
  by (simp add: scan_simps file_a1_def file_a2_def)

lemma ev_run_toString:
  "runInContext ''t.js'' 1 (fileText file_toString) st_empty = (Some TypeError, st_empty)"
  by (simp add: scan_simps file_toString_def st_empty_def)

lemma ev_build_toString: "buildModulesStructure pristine [[file_toString]] = []"
  by (simp add: scan_simps file_toString_def)

lemma ev_build_lib:
  "buildModulesStructure pristine [[file_lib]]
     = [(''lib'', \<lparr>dependencies = [], files = [''lib.js''], size' = 4, providers = []\<rparr>)]"
  by (simp add: scan_simps file_lib_def)

section \<open>The claims\<close>

text \<open>
  In the statements, \<open>b\<close> is the state of the inherited values of the engine in which
  the function runs, and \<open>pristine\<close> the state in which nothing has been written to them.
\<close>

subsection \<open>Claim C1\<close>

text \<open>
  Claim C1, as the code has it. On a graph without cycles in which no dependency name is
  the name of an inherited value, and for a module \<open>M\<close> of the graph,
  \<^verbatim>\<open>resolveDependencies(M, G)\<close> returns a list without duplicates whose last element is
  \<open>M\<close> itself, and \<open>M\<close> stands nowhere else in it: the root is part of the result, since
  \<^verbatim>\<open>doResolve\<close> is called with \<^verbatim>\<open>[moduleName]\<close>. For \<open>A:[], B:[A], C:[B]\<close> the
  result for \<open>C\<close> is \<open>[A, B, C]\<close>.
\<close>

theorem resolveDependencies_root_last:
  "(acyclic (edges G) \<and> plain_dependencies b G \<and> map_of G M \<noteq> None \<longrightarrow>
      (\<exists>names. resolveDependencies b M G = Some (Inr names) \<and> distinct names
          \<and> names \<noteq> [] \<and> last names = M \<and> M \<notin> set (butlast names)))
   \<and> resolveDependencies pristine ''C'' G_ABC = Some (Inr [''A'', ''B'', ''C''])"
proof (intro conjI impI)
  assume a: "acyclic (edges G) \<and> plain_dependencies b G \<and> map_of G M \<noteq> None"
  then obtain mc where mc: "map_of G M = Some mc" by auto
  from a have p: "plain_dependencies b G" and ac: "acyclic (edges G)" by simp_all
  from ac have none: "findCircularReference b G = Inr None"
    by (simp add: absent_iff_acyclic[OF p])
  from doResolve_root[OF ac p mc] obtain r where
    "doResolve b G [M] = Some (Inr (r @ [M]))" "distinct (r @ [M])"
    by blast
  with none show "\<exists>names. resolveDependencies b M G = Some (Inr names) \<and> distinct names
          \<and> names \<noteq> [] \<and> last names = M \<and> M \<notin> set (butlast names)"
    by (intro exI[of _ "r @ [M]"]) (simp add: resolveDependencies_def)
next
  show "resolveDependencies pristine ''C'' G_ABC = Some (Inr [''A'', ''B'', ''C''])"
    by (rule ev_resolve)
qed

text \<open>The same graph, resolved for \<open>B\<close>.\<close>

theorem resolveDependencies_root_last_witness:
  "acyclic (edges G_ABC) \<and> plain_dependencies pristine G_ABC \<and> map_of G_ABC ''B'' \<noteq> None
   \<and> resolveDependencies pristine ''B'' G_ABC = Some (Inr [''A'', ''B''])"
proof -
  have a: "acyclic (edges G_ABC)" using ev_ABC by (simp add: absent_iff_acyclic[OF plain_ABC])
  have b: "map_of G_ABC ''B'' \<noteq> None" by (simp add: G_ABC_def)
  have e: "resolveDependencies pristine ''B'' G_ABC = Some (Inr [''A'', ''B''])"
    by (simp add: resolveDependencies_def ev_ABC)
       (simp add: G_ABC_def doResolve_unfold resolveStep_def get_def dropDuplicates_distinct
          dropDuplicates_Nil)
  from resolveDependencies_root_last[of G_ABC pristine "''B''"] a b e plain_ABC
  show ?thesis by simp
qed

text \<open>
  Claim C1 as stated fails on its own scenario: the result for \<open>C\<close> contains \<open>C\<close> and is
  not \<open>[A, B]\<close>.
\<close>

theorem resolveDependencies_contains_root:
  "findCircularReference pristine G_ABC = Inr None \<and> map_of G_ABC ''C'' \<noteq> None
   \<and> resolveDependencies pristine ''C'' G_ABC = Some (Inr [''A'', ''B'', ''C''])
   \<and> ''C'' \<in> set [''A'', ''B'', ''C''] \<and> [''A'', ''B'', ''C''] \<noteq> [''A'', ''B'']"
  by (simp add: ev_ABC ev_resolve) (simp add: G_ABC_def)

subsection \<open>Claim C2\<close>

text \<open>
  Claim C2 says that on every graph without cycles the result of
  \<^verbatim>\<open>resolveDependencies(M, G)\<close> is a load order. The code does not give one on the graph
  \<open>A:[constructor]\<close>, which has one module and no edge: \<^verbatim>\<open>modules['constructor']\<close> is
  the inherited function \<^verbatim>\<open>Object\<close>, which is truthy, so the search for a cycle follows
  the name, reads \<^verbatim>\<open>dependencies\<close> of the function, and \<^verbatim>\<open>resolveDependencies\<close> throws
  a \<^verbatim>\<open>TypeError\<close> instead of returning \<open>[A]\<close>.
\<close>

theorem resolveDependencies_inherited_name:
  "acyclic (edges G_constructor) \<and> map_of G_constructor ''A'' \<noteq> None
   \<and> map_of G_constructor ''constructor'' = None
   \<and> resolveDependencies pristine ''A'' G_constructor = Some (Inl TypeError)"
  by (simp add: acyclic_constructor resolveDependencies_def ev_constructor)
     (simp add: G_constructor_def)

subsection \<open>Claim C3\<close>

text \<open>
  Claim C3, as the code has it. When \<^verbatim>\<open>findCircularReference\<close> returns \<^verbatim>\<open>undefined\<close>
  the graph has no cycle. On a graph in which no dependency name is the name of an
  inherited value it returns \<^verbatim>\<open>undefined\<close> exactly when the graph has no cycle, and a
  returned trail is a walk along edges of the graph that starts at the module the search
  started from, repeats no module before its last element, and ends with a closed walk:
  the last element stands earlier on the trail, but it need not be the first one.
\<close>

theorem findCircularReference_absent_iff_acyclic:
  "(findCircularReference b G = Inr None \<longrightarrow> acyclic (edges G)) \<and>
   (plain_dependencies b G \<longrightarrow>
      (findCircularReference b G = Inr None \<longleftrightarrow> acyclic (edges G)) \<and>
      (\<forall>trail. findCircularReference b G = Inr (Some trail) \<longrightarrow>
         walk G trail \<and> distinct (butlast trail) \<and>
         (\<exists>pre cyc. trail = pre @ cyc \<and> 2 \<le> length cyc \<and> hd cyc = last cyc)))"
proof (intro conjI allI impI)
  assume "findCircularReference b G = Inr None"
  then show "acyclic (edges G)" by (rule absent_acyclic)
next
  assume "plain_dependencies b G"
  then show "findCircularReference b G = Inr None \<longleftrightarrow> acyclic (edges G)"
    by (rule absent_iff_acyclic)
next
  fix trail
  assume p: "plain_dependencies b G" and f: "findCircularReference b G = Inr (Some trail)"
  from found_trail[OF p f] show "walk G trail" by simp
  from found_trail[OF p f] show "distinct (butlast trail)" by simp
  from found_trail[OF p f] have "last trail \<in> set (butlast trail)" by simp
  then show "\<exists>pre cyc. trail = pre @ cyc \<and> 2 \<le> length cyc \<and> hd cyc = last cyc"
    by (rule lasso_split)
qed

text \<open>
  The three graphs of the scenarios: no cycle in \<open>A:[], B:[A], C:[B]\<close>; the cycle of
  \<open>A:[B], B:[A]\<close>; the trail into the loop of \<open>n:[a], a:[a]\<close>.
\<close>

theorem findCircularReference_absent_iff_acyclic_witness:
  "plain_dependencies pristine G_ABC \<and> findCircularReference pristine G_ABC = Inr None
   \<and> acyclic (edges G_ABC)
   \<and> plain_dependencies pristine G_AB
   \<and> findCircularReference pristine G_AB = Inr (Some [''A'', ''B'', ''A''])
   \<and> \<not> acyclic (edges G_AB) \<and> walk G_AB [''A'', ''B'', ''A'']
   \<and> plain_dependencies pristine G_lasso
   \<and> findCircularReference pristine G_lasso = Inr (Some [''n'', ''a'', ''a''])
   \<and> walk G_lasso [''n'', ''a'', ''a'']"
  using findCircularReference_absent_iff_acyclic[of pristine G_ABC]
    findCircularReference_absent_iff_acyclic[of pristine G_AB]
    findCircularReference_absent_iff_acyclic[of pristine G_lasso]
  by (simp add: ev_ABC ev_AB ev_lasso plain_ABC plain_AB plain_lasso)

text \<open>
  Claim C3 as stated fails on \<open>n:[a], a:[a]\<close>: the search starts at \<open>n\<close>, which is not
  on the cycle, and the trail \<open>[n, a, a]\<close> does not end where it starts.
\<close>

theorem findCircularReference_trail_not_closed:
  "findCircularReference pristine G_lasso = Inr (Some [''n'', ''a'', ''a''])
   \<and> hd [''n'', ''a'', ''a''] \<noteq> last [''n'', ''a'', ''a'']"
  by (simp add: ev_lasso)

subsection \<open>Claim C4\<close>

text \<open>
  Claim C4. On a graph with a cycle \<^verbatim>\<open>resolveDependencies\<close> throws for every root
  module, whether the root is a module of the graph or not: it neither returns a list
  nor fails to return, and \<open>doResolve\<close> is not entered. What it throws is its own error,
  or the \<^verbatim>\<open>TypeError\<close> of the search for a cycle when that meets the name of an inherited
  value first; on a graph in which no dependency name is such a name it is its own
  error.
\<close>

theorem resolveDependencies_cyclic_fatal:
  assumes "\<not> acyclic (edges G)"
  shows "(resolveDependencies b M G
            = Some (Inl (Error ''Can not build dependency tree - found circular dependency''))
          \<or> resolveDependencies b M G = Some (Inl TypeError))
         \<and> (plain_dependencies b G \<longrightarrow> resolveDependencies b M G
              = Some (Inl (Error ''Can not build dependency tree - found circular dependency'')))"
proof (intro conjI impI)
  show "resolveDependencies b M G
            = Some (Inl (Error ''Can not build dependency tree - found circular dependency''))
          \<or> resolveDependencies b M G = Some (Inl TypeError)"
  proof (cases "findCircularReference b G")
    case (Inl e)
    then have "e = TypeError" by (rule findCircularReference_throws)
    with Inl show ?thesis by (simp add: resolveDependencies_def)
  next
    case (Inr r)
    with assms have "r \<noteq> None" using cyclic_not_absent[of G b] by auto
    with Inr show ?thesis by (auto simp: resolveDependencies_def)
  qed
next
  assume p: "plain_dependencies b G"
  obtain r where r: "findCircularReference b G = Inr r"
    using findCircularReference_total[OF p] by blast
  with assms have "r \<noteq> None" using absent_iff_acyclic[OF p] by auto
  with r show "resolveDependencies b M G
      = Some (Inl (Error ''Can not build dependency tree - found circular dependency''))"
    by (auto simp: resolveDependencies_def)
qed

text \<open>
  The scenario \<open>A:[B], B:[A]\<close>, where the error is the one of \<^verbatim>\<open>resolveDependencies\<close>;
  and \<open>A:[constructor, B], B:[A]\<close>, where it is the \<^verbatim>\<open>TypeError\<close>.
\<close>

theorem resolveDependencies_cyclic_fatal_witness:
  "\<not> acyclic (edges G_AB) \<and> plain_dependencies pristine G_AB
   \<and> findCircularReference pristine G_AB = Inr (Some [''A'', ''B'', ''A''])
   \<and> resolveDependencies pristine ''A'' G_AB
       = Some (Inl (Error ''Can not build dependency tree - found circular dependency''))
   \<and> \<not> acyclic (edges G_AB_constructor)
   \<and> resolveDependencies pristine ''A'' G_AB_constructor = Some (Inl TypeError)"
proof -
  have c: "\<not> acyclic (edges G_AB)"
    using found_cyclic[OF plain_AB ev_AB] .
  have t: "resolveDependencies pristine ''A'' G_AB_constructor = Some (Inl TypeError)"
    by (simp add: resolveDependencies_def ev_AB_constructor)
  from resolveDependencies_cyclic_fatal[OF c, of pristine "''A''"]
    resolveDependencies_cyclic_fatal[OF cyclic_AB_constructor, of pristine "''A''"]
    c plain_AB cyclic_AB_constructor t
  show ?thesis
    by (simp add: ev_AB)
qed

subsection \<open>Claim C5\<close>

text \<open>
  Claim C5, as the code has it. When the run of a file throws, the exception is
  swallowed: the file leaves a state as every file does, and the scan goes on from that
  state with the files and directories that follow. But the calls the run made before
  it threw have changed the structure already, and they stay: whether the text throws
  or a function of the sandbox does, the structure after the file is the structure after
  the calls that went before. A run that throws before its first call leaves the state
  as it was.
\<close>

theorem failing_file_keeps_earlier_calls:
  "processFile st src
     = snd (runInContext (currentFileName src) (currentFileSize src) (fileText src) st)
   \<and> (fst (runInContext (currentFileName src) (currentFileSize src) (fileText src) st)
         = Some thrown \<longrightarrow>
        (\<exists>before rest. fileText src = before @ rest \<and> rest \<noteq> []
           \<and> fst (runInContext (currentFileName src) (currentFileSize src) before st) = None
           \<and> modulesStructure (processFile st src)
               = modulesStructure
                   (snd (runInContext (currentFileName src) (currentFileSize src) before st))))
   \<and> processFile st (src\<lparr>fileText := pre @ Throw e # post\<rparr>)
     = snd (runInContext (currentFileName src) (currentFileSize src) pre st)
   \<and> processFile st (src\<lparr>fileText := Throw e # post\<rparr>) = st
   \<and> scan st (dirs1 @ [files1 @ [src] @ files2] @ dirs2)
     = scan (foldl processFile (processFile (foldl processFile (scan st dirs1) files1) src)
               files2) dirs2"
proof (intro conjI impI)
  show "processFile st src
     = snd (runInContext (currentFileName src) (currentFileSize src) (fileText src) st)"
    by (rule processFile_snd)
  show "processFile st (src\<lparr>fileText := pre @ Throw e # post\<rparr>)
     = snd (runInContext (currentFileName src) (currentFileSize src) pre st)"
    by (rule processFile_throw)
  show "processFile st (src\<lparr>fileText := Throw e # post\<rparr>) = st"
    using processFile_throw[where st = st and src = src and pre = "[]" and e = e and post = post]
    by simp
  show "scan st (dirs1 @ [files1 @ [src] @ files2] @ dirs2)
     = scan (foldl processFile (processFile (foldl processFile (scan st dirs1) files1) src)
               files2) dirs2"
    by (simp add: scan_append scan_Cons)
next
  assume "fst (runInContext (currentFileName src) (currentFileSize src) (fileText src) st)
            = Some thrown"
  then show "\<exists>before rest. fileText src = before @ rest \<and> rest \<noteq> []
           \<and> fst (runInContext (currentFileName src) (currentFileSize src) before st) = None
           \<and> modulesStructure (processFile st src)
               = modulesStructure
                   (snd (runInContext (currentFileName src) (currentFileSize src) before st))"
    unfolding processFile_snd by (rule runInContext_fails)
qed

text \<open>
  A file that declares module \<open>a\<close> and then throws: the structure after it is the one
  after the declaration.
\<close>

theorem failing_file_keeps_earlier_calls_witness:
  "fst (runInContext (currentFileName file_a) (currentFileSize file_a) (fileText file_a)
          st_empty) = Some (Error ''not defined'')
   \<and> (\<exists>before rest. fileText file_a = before @ rest \<and> rest \<noteq> []
         \<and> fst (runInContext (currentFileName file_a) (currentFileSize file_a) before st_empty)
             = None
         \<and> modulesStructure (processFile st_empty file_a)
             = modulesStructure
                 (snd (runInContext (currentFileName file_a) (currentFileSize file_a) before
                         st_empty)))
   \<and> modulesStructure (processFile st_empty file_a)
       = [(''a'', \<lparr>dependencies = [], files = [''a.js''], size' = 1, providers = []\<rparr>)]"
proof -
  have t: "fst (runInContext (currentFileName file_a) (currentFileSize file_a) (fileText file_a)
          st_empty) = Some (Error ''not defined'')"
    by (simp add: scan_simps file_a_def st_empty_def)
  have m: "modulesStructure (processFile st_empty file_a)
       = [(''a'', \<lparr>dependencies = [], files = [''a.js''], size' = 1, providers = []\<rparr>)]"
    by (simp add: scan_simps file_a_def st_empty_def)
  from failing_file_keeps_earlier_calls[where st = st_empty and src = file_a
      and thrown = "Error ''not defined''"] t
  have "\<exists>before rest. fileText file_a = before @ rest \<and> rest \<noteq> []
         \<and> fst (runInContext (currentFileName file_a) (currentFileSize file_a) before st_empty)
             = None
         \<and> modulesStructure (processFile st_empty file_a)
             = modulesStructure
                 (snd (runInContext (currentFileName file_a) (currentFileSize file_a) before
                         st_empty))"
    by blast
  with t m show ?thesis by blast
qed

text \<open>
  Claim C5 as stated fails on a file that declares module \<open>a\<close> and then throws: its run
  throws, and module \<open>a\<close> is in the structure all the same, where a scan of no file
  gives the empty structure.
\<close>

theorem failing_file_contributes:
  "fst (runInContext ''a.js'' 1 (fileText file_a) st_empty) = Some (Error ''not defined'')
   \<and> buildModulesStructure pristine [[file_a]]
     = [(''a'', \<lparr>dependencies = [], files = [''a.js''], size' = 1, providers = []\<rparr>)]
   \<and> buildModulesStructure pristine [[]] = []
   \<and> buildModulesStructure pristine [[file_a]] \<noteq> buildModulesStructure pristine [[]]"
  by (simp add: ev_build_a) (simp add: scan_simps file_a_def st_empty_def)

subsection \<open>Claim C6\<close>

text \<open>
  Claim C6 says that a call of \<^verbatim>\<open>angular.module\<close> with a dependency list puts the
  declaring file first in the file list of the module; so does the comment of the code
  at that branch. The code does not do that when the declaring file is in the list
  already: the branch is inside the test \<^verbatim>\<open>module.files.indexOf(...) < 0\<close>. Here
  \<^verbatim>\<open>a1.js\<close> refers to module \<open>m\<close>, and \<^verbatim>\<open>a2.js\<close> refers to it and then declares it
  with the dependency \<open>x\<close>: the dependency list is replaced, and \<^verbatim>\<open>a2.js\<close> stays behind
  \<^verbatim>\<open>a1.js\<close>.
\<close>

theorem redeclaring_file_not_moved_first:
  "buildModulesStructure pristine [[file_a1, file_a2]]
     = [(''m'', \<lparr>dependencies = [''x''], files = [''a1.js'', ''a2.js''], size' = 2,
                providers = []\<rparr>)]
   \<and> hd [''a1.js'', ''a2.js''] \<noteq> currentFileName file_a2
   \<and> last (fileText file_a2) = Call (Module ''m'' (Some [''x'']))"
  by (simp add: ev_build_m) (simp add: file_a2_def)

subsection \<open>Claim C7\<close>



subsection \<open>Claim C8\<close>

text \<open>
  Claim C8 says that \<^verbatim>\<open>validateInjects\<close> has a message for an injected name exactly
  when the name is a provider of another module that the injecting module does not
  depend on, and none for a name that no provider has. The code does so on the scenario
  of the claim: one message for \<open>q\<close>, none for \<open>$http\<close>. It does not for the injected
  name \<open>constructor\<close> in the structure built from \<^verbatim>\<open>x.js\<close>: no provider has that name,
  but \<^verbatim>\<open>moduleByProvider['constructor']\<close> is the inherited function \<^verbatim>\<open>Object\<close>, which
  is truthy and differs from every module name, so there is a message, which names the
  text of that function as the module.
\<close>

theorem validateInjects_inherited_name:
  "buildModulesStructure pristine [[file_x]] = G_X
   \<and> moduleByProvider G_X ''constructor'' = None
   \<and> validateInjects pristine G_X
     = [injectError ''X'' ''p'' ''constructor'' ''function Object() { [native code] }'']
   \<and> validateInjects pristine G_XY = [injectError ''X'' ''p'' ''q'' ''Y'']"
proof (intro conjI)
  show "buildModulesStructure pristine [[file_x]] = G_X"
    by (simp add: scan_simps validateConstructor_def file_x_def G_X_def)
  show "moduleByProvider G_X ''constructor'' = None"
    by (simp add: moduleByProvider_def Object_keys_def G_X_def)
  show "validateInjects pristine G_X
     = [injectError ''X'' ''p'' ''constructor'' ''function Object() { [native code] }'']"
    by (simp add: validateInjects_def invalidInject_def owner_of_def moduleByProvider_def
        Object_keys_def G_X_def Object_prototype_functions_def)
  show "validateInjects pristine G_XY = [injectError ''X'' ''p'' ''q'' ''Y'']"
    by (simp add: validateInjects_def invalidInject_def owner_of_def moduleByProvider_def
        Object_keys_def G_XY_def Object_prototype_functions_def pristine_def)
qed

subsection \<open>Claim C9\<close>

text \<open>
  Claim C9 says that \<^verbatim>\<open>findCircularReference\<close> ends on every graph and does not follow
  a dependency that is no module of the graph. The code does so when the name gives
  \<^verbatim>\<open>undefined\<close> in the structure, as \<open>X\<close> in \<open>A:[X]\<close>, where the search returns. It does
  not for \<open>A:[constructor]\<close>: \<open>constructor\<close> is no module of the graph, but
  \<^verbatim>\<open>modules['constructor']\<close> is the inherited function \<^verbatim>\<open>Object\<close>, which is truthy, so
  \<^verbatim>\<open>doFind('constructor', ['A'])\<close> is called, reads \<^verbatim>\<open>length\<close> of the \<^verbatim>\<open>dependencies\<close>
  of the function, and the search ends with a \<^verbatim>\<open>TypeError\<close>.
\<close>

theorem findCircularReference_inherited_name:
  "map_of G_constructor ''constructor'' = None
   \<and> forEachDep pristine G_constructor ''A'' [] [''constructor'']
     = doFind pristine G_constructor ''constructor'' [''A'']
   \<and> doFind pristine G_constructor ''constructor'' [''A''] = Inl TypeError
   \<and> findCircularReference pristine G_constructor = Inl TypeError
   \<and> map_of G_dangling ''X'' = None
   \<and> forEachDep pristine G_dangling ''A'' [] [''X''] = Inr ()
   \<and> findCircularReference pristine G_dangling = Inr None"
proof (intro conjI)
  show "map_of G_constructor ''constructor'' = None" by (simp add: G_constructor_def)
  show "forEachDep pristine G_constructor ''A'' [] [''constructor'']
     = doFind pristine G_constructor ''constructor'' [''A'']"
    unfolding ev_constructor_forEachDep ev_constructor_doFind by (rule refl)
  show "doFind pristine G_constructor ''constructor'' [''A''] = Inl TypeError"
    by (rule ev_constructor_doFind)
  show "findCircularReference pristine G_constructor = Inl TypeError"
    by (rule ev_constructor)
  show "map_of G_dangling ''X'' = None" by (simp add: G_dangling_def)
  show "forEachDep pristine G_dangling ''A'' [] [''X''] = Inr ()"
    by (simp add: get_def G_dangling_def inherited_def Object_prototype_functions_def
        pristine_def)
  show "findCircularReference pristine G_dangling = Inr None"
    by (rule ev_dangling)
qed

subsection \<open>Claim C10\<close>

text \<open>
  Claim C10 says that a call \<^verbatim>\<open>angular.module(name)\<close> for a name that is not in the
  structure adds a module with no dependencies, the file as its only file, the size of
  the file and no providers. The code does so for a name that gives \<^verbatim>\<open>undefined\<close> in
  the structure, as for \<open>lib\<close> here. It does not for \<open>toString\<close>: \<^verbatim>\<open>modules['toString']\<close>
  is an inherited function, which is truthy, so no module is made; the call throws a
  \<^verbatim>\<open>TypeError\<close> at \<^verbatim>\<open>module.files.indexOf\<close>, the scan swallows it, and the structure
  has no module \<open>toString\<close>.
\<close>

theorem bare_reference_inherited_name:
  "map_of (modulesStructure st_empty) ''toString'' = None
   \<and> runInContext ''t.js'' 1 (fileText file_toString) st_empty = (Some TypeError, st_empty)
   \<and> buildModulesStructure pristine [[file_toString]] = []
   \<and> buildModulesStructure pristine [[file_lib]]
     = [(''lib'', \<lparr>dependencies = [], files = [''lib.js''], size' = 4, providers = []\<rparr>)]"
  using ev_run_toString ev_build_toString ev_build_lib by (simp add: st_empty_def)

end
